theory Spec2Isabelle
  imports Main
begin

section \<open>Values thrown by the program and by the host\<close>

text \<open>
  \<open>_getMatchIndexes\<close> throws two strings; the host throws a \<open>TypeError\<close> when a
  property of \<open>null\<close> or \<open>undefined\<close> is read or when \<open>null\<close> is handed to
  \<open>insertBefore\<close>, a \<open>DOMException\<close> when a tree operation is refused, and the
  \<open>DOMException\<close> named \<open>InvalidCharacterError\<close> when \<open>createElement\<close> is handed a string
  that is no element name.
\<close>

datatype error =
    ZeroLengthMatch      \<comment> \<open>'findAndReplaceDOMText cannot handle zero-length matches'\<close>
  | InvalidCaptureGroup  \<comment> \<open>'Invalid capture group'\<close>
  | TypeError
  | DOMException
  | InvalidCharacterError

section \<open>Host strings\<close>

text \<open>\<open>String.prototype.substring\<close>: both arguments are clamped to the string and swapped
  when the first exceeds the second.\<close>

definition clampIndex :: "string \<Rightarrow> int \<Rightarrow> nat" where
  "clampIndex s i = (if i < 0 then 0 else if int (length s) < i then length s else nat i)"

definition substring :: "string \<Rightarrow> int \<Rightarrow> int \<Rightarrow> string" where
  "substring s a b =
     (let lo = min (clampIndex s a) (clampIndex s b);
          hi = max (clampIndex s a) (clampIndex s b)
      in take (hi - lo) (drop lo s))"

definition substringFrom :: "string \<Rightarrow> int \<Rightarrow> string" where
  "substringFrom s a = substring s a (int (length s))"

text \<open>\<open>String.prototype.indexOf\<close>: the first position at which the needle occurs, or \<open>-1\<close>.\<close>

fun startsWith :: "string \<Rightarrow> string \<Rightarrow> bool" where
  "startsWith s [] = True"
| "startsWith [] (c # cs) = False"
| "startsWith (x # xs) (c # cs) = (x = c \<and> startsWith xs cs)"

fun indexOf :: "string \<Rightarrow> string \<Rightarrow> int" where
  "indexOf [] needle = (if needle = [] then 0 else -1)"
| "indexOf (x # xs) needle =
     (if startsWith (x # xs) needle then 0
      else (let r = indexOf xs needle in if r < 0 then -1 else r + 1))"

section \<open>Host regular expressions\<close>

text \<open>
  A match object \<open>m\<close>: \<open>m.index\<close> and the array part \<open>m[0], m[1], ...\<close>, where a group that
  did not participate is \<open>undefined\<close> (\<open>None\<close>). Reading past the array is \<open>undefined\<close> too.
\<close>

record rmatch =
  index :: nat
  groups :: "string option list"

definition groupAt :: "rmatch \<Rightarrow> nat \<Rightarrow> string option" where
  "groupAt m k = (if k < length (groups m) then groups m ! k else None)"

text \<open>
  The pattern engine is the host's. A regular expression is its \<open>global\<close> flag and its
  search function: \<open>search re txt i\<close> is the leftmost match of the pattern in \<open>txt\<close> that
  starts at or after position \<open>i\<close>. The mutable \<open>lastIndex\<close> is threaded separately.
\<close>

record regex =
  global :: bool
  search :: "string \<Rightarrow> nat \<Rightarrow> rmatch option"

text \<open>\<open>RegExp.prototype.exec\<close>, returning the match and the new \<open>lastIndex\<close>.\<close>

definition regex_exec :: "regex \<Rightarrow> string \<Rightarrow> nat \<Rightarrow> rmatch option \<times> nat" where
  "regex_exec re txt li =
     (if global re then
        (if length txt < li then (None, 0)
         else (case search re txt li of
                 None \<Rightarrow> (None, 0)
               | Some m \<Rightarrow> (Some m, index m + length (case groupAt m 0 of None \<Rightarrow> [] | Some s \<Rightarrow> s))))
      else (search re txt 0, li))"

text \<open>\<open>String.prototype.match\<close> with a pattern that is not global: one \<open>exec\<close>.\<close>

definition string_match :: "string \<Rightarrow> regex \<Rightarrow> rmatch option" where
  "string_match txt re = search re txt 0"

text \<open>What every host engine guarantees of a match: it starts at or after the position the
  search started from, it lies inside the text, and \<open>m[0]\<close> is the text it covers.\<close>

definition engine_ok :: "regex \<Rightarrow> bool" where
  "engine_ok re \<longleftrightarrow>
     (\<forall>txt i m. search re txt i = Some m \<longrightarrow>
        i \<le> index m \<and>
        (\<exists>m0. groupAt m 0 = Some m0 \<and> index m + length m0 \<le> length txt \<and>
              m0 = take (length m0) (drop (index m) txt)))"

section \<open>Match location\<close>

text \<open>A match descriptor is the array \<open>[start, end, [text]]\<close>.\<close>

type_synonym descriptor = "int \<times> int \<times> string list"

definition mstart :: "descriptor \<Rightarrow> int" where "mstart d = fst d"
definition mend :: "descriptor \<Rightarrow> int" where "mend d = fst (snd d)"
definition mtext :: "descriptor \<Rightarrow> string list" where "mtext d = snd (snd d)"

text \<open>\<open>_getMatchIndexes(m, captureGroup)\<close>; \<open>m\<close> is \<open>null\<close> when \<open>String.match\<close> found
  nothing, \<open>captureGroup\<close> is \<open>undefined\<close> when the caller left it out.\<close>

definition getMatchIndexes :: "rmatch option \<Rightarrow> nat option \<Rightarrow> error + descriptor" where
  "getMatchIndexes mo captureGroup =
     (let cgi = (case captureGroup of None \<Rightarrow> 0 | Some k \<Rightarrow> k) in
      case mo of
        None \<Rightarrow> Inl TypeError
      | Some m \<Rightarrow>
          (case groupAt m 0 of
             None \<Rightarrow> Inl ZeroLengthMatch
           | Some m0 \<Rightarrow>
               if m0 = [] then Inl ZeroLengthMatch
               else if 0 < cgi then
                 (case groupAt m cgi of
                    None \<Rightarrow> Inl InvalidCaptureGroup
                  | Some cg \<Rightarrow>
                      if cg = [] then Inl InvalidCaptureGroup
                      else (let idx = int (index m) + indexOf m0 cg
                            in Inr (idx, idx + int (length cg), [cg])))
               else Inr (int (index m), int (index m) + int (length m0), [m0])))"

text \<open>
  The loop \<open>while (m = regex.exec(text)) matches.push(_getMatchIndexes(m, captureGroup))\<close>.
  The result is \<open>None\<close> when the fuel runs out; otherwise the descriptors or the value
  thrown, with the pattern's final \<open>lastIndex\<close>.
\<close>

fun execLoop :: "nat \<Rightarrow> regex \<Rightarrow> string \<Rightarrow> nat option \<Rightarrow> nat \<Rightarrow> descriptor list
                  \<Rightarrow> ((error + descriptor list) \<times> nat) option" where
  "execLoop 0 re txt captureGroup li matches = None"
| "execLoop (Suc fuel) re txt captureGroup li matches =
     (case regex_exec re txt li of
        (None, li') \<Rightarrow> Some (Inr matches, li')
      | (Some m, li') \<Rightarrow>
          (case getMatchIndexes (Some m) captureGroup of
             Inl e \<Rightarrow> Some (Inl e, li')
           | Inr d \<Rightarrow> execLoop fuel re txt captureGroup li' (matches @ [d])))"

text \<open>Lines 42 to 49 of \<open>findAndReplaceDOMText\<close>: both modes of match location.\<close>

definition locate :: "nat \<Rightarrow> regex \<Rightarrow> string \<Rightarrow> nat option \<Rightarrow> nat
                        \<Rightarrow> ((error + descriptor list) \<times> nat) option" where
  "locate fuel re txt captureGroup li =
     (if global re then execLoop fuel re txt captureGroup li []
      else (case getMatchIndexes (string_match txt re) captureGroup of
              Inl e \<Rightarrow> Some (Inl e, li)
            | Inr d \<Rightarrow> Some (Inr [d], li)))"

section \<open>The document tree\<close>

text \<open>
  A node is a Text node (\<open>nodeType\<close> 3) with its character data or an Element
  (\<open>nodeType\<close> 1) with its tag name and its ordered children. Every node carries an
  identity, a number, which is what a variable of the program holds. The heap of the
  host is a forest: the document and every detached node are its top-level trees, and a
  top-level node has no parent and no siblings.
\<close>

datatype dnode = Text nat string | Element nat string "dnode list"

fun nodeId :: "dnode \<Rightarrow> nat" where
  "nodeId (Text i d) = i"
| "nodeId (Element i t cs) = i"

fun childNodes :: "dnode \<Rightarrow> dnode list" where
  "childNodes (Text i d) = []"
| "childNodes (Element i t cs) = cs"

text \<open>\<open>_getText\<close>: the data of a Text node, else the texts of the children in order.\<close>

fun getText :: "dnode \<Rightarrow> string" and getTexts :: "dnode list \<Rightarrow> string" where
  "getText (Text i d) = d"
| "getText (Element i t cs) = getTexts cs"
| "getTexts [] = []"
| "getTexts (c # cs) = getText c @ getTexts cs"

fun findNode :: "nat \<Rightarrow> dnode \<Rightarrow> dnode option"
  and findNodes :: "nat \<Rightarrow> dnode list \<Rightarrow> dnode option" where
  "findNode n (Text i d) = (if i = n then Some (Text i d) else None)"
| "findNode n (Element i t cs) = (if i = n then Some (Element i t cs) else findNodes n cs)"
| "findNodes n [] = None"
| "findNodes n (c # cs) = (case findNode n c of Some x \<Rightarrow> Some x | None \<Rightarrow> findNodes n cs)"

text \<open>The element that has \<open>n\<close> among its children.\<close>

fun findParent :: "nat \<Rightarrow> dnode \<Rightarrow> dnode option"
  and findParents :: "nat \<Rightarrow> dnode list \<Rightarrow> dnode option" where
  "findParent n (Text i d) = None"
| "findParent n (Element i t cs) =
     (if n \<in> set (map nodeId cs) then Some (Element i t cs) else findParents n cs)"
| "findParents n [] = None"
| "findParents n (c # cs) = (case findParent n c of Some p \<Rightarrow> Some p | None \<Rightarrow> findParents n cs)"

fun nextOf :: "nat \<Rightarrow> dnode list \<Rightarrow> nat option" where
  "nextOf n [] = None"
| "nextOf n [c] = None"
| "nextOf n (c # d # cs) = (if nodeId c = n then Some (nodeId d) else nextOf n (d # cs))"

text \<open>Taking a subtree out of the forest, wherever it hangs.\<close>

fun cut :: "nat \<Rightarrow> dnode \<Rightarrow> dnode" and cuts :: "nat \<Rightarrow> dnode list \<Rightarrow> dnode list" where
  "cut n (Text i d) = Text i d"
| "cut n (Element i t cs) = Element i t (cuts n cs)"
| "cuts n [] = []"
| "cuts n (c # cs) = (if nodeId c = n then cuts n cs else cut n c # cuts n cs)"

text \<open>Putting a tree among the children of element \<open>p\<close>, before child \<open>r\<close> or at the end.\<close>

fun insertAt :: "nat option \<Rightarrow> dnode \<Rightarrow> dnode list \<Rightarrow> dnode list" where
  "insertAt None x cs = cs @ [x]"
| "insertAt (Some r) x [] = [x]"
| "insertAt (Some r) x (c # cs) = (if nodeId c = r then x # c # cs else c # insertAt (Some r) x cs)"

fun put :: "nat \<Rightarrow> nat option \<Rightarrow> dnode \<Rightarrow> dnode \<Rightarrow> dnode"
  and puts :: "nat \<Rightarrow> nat option \<Rightarrow> dnode \<Rightarrow> dnode list \<Rightarrow> dnode list" where
  "put p r x (Text i d) = Text i d"
| "put p r x (Element i t cs) =
     (if i = p then Element i t (insertAt r x cs) else Element i t (puts p r x cs))"
| "puts p r x [] = []"
| "puts p r x (c # cs) = put p r x c # puts p r x cs"

text \<open>\<open>Node.normalize\<close>: empty Text nodes go, and a run of adjacent Text nodes is merged
  into its first non-empty node.\<close>

fun joinText :: "dnode \<Rightarrow> dnode list \<Rightarrow> dnode list" where
  "joinText (Text i d) rest =
     (if d = [] then rest
      else (case rest of
              Text j d' # rest' \<Rightarrow> Text i (d @ d') # rest'
            | _ \<Rightarrow> Text i d # rest))"
| "joinText (Element i t cs) rest = Element i t cs # rest"

fun normalizeNode :: "dnode \<Rightarrow> dnode" and normalizeList :: "dnode list \<Rightarrow> dnode list" where
  "normalizeNode (Text i d) = Text i d"
| "normalizeNode (Element i t cs) = Element i t (normalizeList cs)"
| "normalizeList [] = []"
| "normalizeList (c # cs) = joinText (normalizeNode c) (normalizeList cs)"

fun nodeIds :: "dnode \<Rightarrow> nat list" and nodesIds :: "dnode list \<Rightarrow> nat list" where
  "nodeIds (Text i d) = [i]"
| "nodeIds (Element i t cs) = i # nodesIds cs"
| "nodesIds [] = []"
| "nodesIds (c # cs) = nodeIds c @ nodesIds cs"

fun textNodes :: "dnode \<Rightarrow> dnode list" and textNodesOf :: "dnode list \<Rightarrow> dnode list" where
  "textNodes (Text i d) = [Text i d]"
| "textNodes (Element i t cs) = textNodesOf cs"
| "textNodesOf [] = []"
| "textNodesOf (c # cs) = textNodes c @ textNodesOf cs"

fun replaceNode :: "nat \<Rightarrow> dnode \<Rightarrow> dnode \<Rightarrow> dnode"
  and replaceNodes :: "nat \<Rightarrow> dnode \<Rightarrow> dnode list \<Rightarrow> dnode list" where
  "replaceNode n x (Text i d) = (if i = n then x else Text i d)"
| "replaceNode n x (Element i t cs) = (if i = n then x else Element i t (replaceNodes n x cs))"
| "replaceNodes n x [] = []"
| "replaceNodes n x (c # cs) = replaceNode n x c # replaceNodes n x cs"

text \<open>A copy of a tree with fresh identities, from \<open>k\<close> on.\<close>

fun copyNode :: "dnode \<Rightarrow> nat \<Rightarrow> dnode \<times> nat"
  and copyNodes :: "dnode list \<Rightarrow> nat \<Rightarrow> dnode list \<times> nat" where
  "copyNode (Text i d) k = (Text k d, Suc k)"
| "copyNode (Element i t cs) k = (case copyNodes cs (Suc k) of (cs', k') \<Rightarrow> (Element k t cs', k'))"
| "copyNodes [] k = ([], k)"
| "copyNodes (c # cs) k =
     (case copyNode c k of (c', k1) \<Rightarrow> (case copyNodes cs k1 of (cs', k2) \<Rightarrow> (c' # cs', k2)))"

text \<open>Giving an element other children.\<close>

fun setChildren :: "nat \<Rightarrow> dnode list \<Rightarrow> dnode \<Rightarrow> dnode"
  and setChildrens :: "nat \<Rightarrow> dnode list \<Rightarrow> dnode list \<Rightarrow> dnode list" where
  "setChildren p xs (Text i d) = Text i d"
| "setChildren p xs (Element i t cs) =
     (if i = p then Element i t xs else Element i t (setChildrens p xs cs))"
| "setChildrens p xs [] = []"
| "setChildrens p xs (c # cs) = setChildren p xs c # setChildrens p xs cs"

section \<open>The host's document\<close>

text \<open>
  Two things the program leaves to the host's \<open>document\<close>. \<open>document.createElement(name)\<close>
  throws when \<open>name\<close> is no element name, and else makes an element whose name is the
  host's to choose (an HTML document puts it in lower case): \<open>elementName\<close> is \<open>None\<close> or
  that name. And the assignment
  \<open>clone.innerHTML = stencilNode.outerHTML || new XMLSerializer().serializeToString(stencilNode)\<close>
  (line 203) hands the stencil's serialisation to the host's parser: \<open>reparse x k\<close> is the
  list of nodes the parser makes of the serialisation of \<open>x\<close>, with identities from \<open>k\<close> on,
  and the next unused identity.
\<close>

record host =
  elementName :: "string \<Rightarrow> string option"
  reparse :: "dnode \<Rightarrow> nat \<Rightarrow> dnode list \<times> nat"

section \<open>Program state\<close>

text \<open>
  A recorded undo closure: the one of the single-node branch captures \<open>el\<close>, the one of the
  multi-node branch captures \<open>elA\<close>, the array \<open>innerEls\<close> (which it extends when it runs)
  and \<open>elB\<close>. A captured variable may hold \<open>null\<close>.
\<close>

datatype revertAction =
    RevertOne "nat option"
  | RevertSpan "nat option" "nat option list" "nat option"

text \<open>
  The heap of the host (\<open>forest\<close>, and the next unused identity), the module variable
  \<open>reverts\<close> (\<open>None\<close> while it is still \<open>undefined\<close>), and the \<open>lastIndex\<close> property of the
  pattern object the program is run with.
\<close>

record state =
  forest :: "dnode list"
  nextId :: nat
  reverts :: "revertAction list option"
  lastIndex :: nat

type_synonym 'a result = "(error + 'a) \<times> state"

definition andThen :: "'a result \<Rightarrow> ('a \<Rightarrow> state \<Rightarrow> 'b result) \<Rightarrow> 'b result" where
  "andThen r f = (case r of (Inl e, st) \<Rightarrow> (Inl e, st) | (Inr a, st) \<Rightarrow> f a st)"

subsection \<open>Reading the tree\<close>

definition nodeOf :: "state \<Rightarrow> nat \<Rightarrow> dnode option" where
  "nodeOf st n = findNodes n (forest st)"

definition parentNode :: "state \<Rightarrow> nat \<Rightarrow> nat option" where
  "parentNode st n = map_option nodeId (findParents n (forest st))"

definition firstChild :: "state \<Rightarrow> nat \<Rightarrow> nat option" where
  "firstChild st n =
     (case nodeOf st n of Some (Element i t (c # cs)) \<Rightarrow> Some (nodeId c) | _ \<Rightarrow> None)"

definition nextSibling :: "state \<Rightarrow> nat \<Rightarrow> nat option" where
  "nextSibling st n =
     (case findParents n (forest st) of None \<Rightarrow> None | Some p \<Rightarrow> nextOf n (childNodes p))"

text \<open>\<open>node.data\<close> and \<open>node.length\<close>, \<open>undefined\<close> on anything but a Text node.\<close>

definition nodeData :: "state \<Rightarrow> nat \<Rightarrow> string option" where
  "nodeData st n = (case nodeOf st n of Some (Text i d) \<Rightarrow> Some d | _ \<Rightarrow> None)"

definition nodeLength :: "state \<Rightarrow> nat \<Rightarrow> nat option" where
  "nodeLength st n = map_option length (nodeData st n)"

definition getTextAt :: "state \<Rightarrow> nat \<Rightarrow> string option" where
  "getTextAt st n = map_option getText (nodeOf st n)"

subsection \<open>Changing the tree\<close>

definition createTextNode :: "string \<Rightarrow> state \<Rightarrow> nat result" where
  "createTextNode d st =
     (Inr (nextId st), st\<lparr>forest := forest st @ [Text (nextId st) d], nextId := Suc (nextId st)\<rparr>)"

definition createElement :: "host \<Rightarrow> string \<Rightarrow> state \<Rightarrow> nat result" where
  "createElement h t st =
     (case elementName h t of
        None \<Rightarrow> (Inl InvalidCharacterError, st)
      | Some t' \<Rightarrow>
          (Inr (nextId st),
           st\<lparr>forest := forest st @ [Element (nextId st) t' []], nextId := Suc (nextId st)\<rparr>))"

text \<open>
  \<open>parent.insertBefore(new, ref)\<close>. The receiver and \<open>new\<close> may be \<open>null\<close> in the program
  (\<open>TypeError\<close>). The host refuses to insert into a Text node, to insert an ancestor of the
  parent, and a reference node that is not a child of the parent.
\<close>

definition insertBefore :: "nat option \<Rightarrow> nat option \<Rightarrow> nat option \<Rightarrow> state \<Rightarrow> unit result" where
  "insertBefore parent new ref st =
     (case parent of
        None \<Rightarrow> (Inl TypeError, st)
      | Some p \<Rightarrow>
         (case new of
            None \<Rightarrow> (Inl TypeError, st)
          | Some n \<Rightarrow>
             (case (nodeOf st p, nodeOf st n) of
                (Some (Element i t cs), Some x) \<Rightarrow>
                  if findNode p x \<noteq> None then (Inl DOMException, st)
                  else if (case ref of None \<Rightarrow> False | Some r \<Rightarrow> parentNode st r \<noteq> Some p)
                    then (Inl DOMException, st)
                  else (Inr (), st\<lparr>forest :=
                          puts p (if ref = Some n then nextSibling st n else ref) x
                            (cuts n (forest st))\<rparr>)
              | (Some (Text i d), Some x) \<Rightarrow> (Inl DOMException, st)
              | _ \<Rightarrow> (Inl TypeError, st))))"

definition appendChild :: "nat option \<Rightarrow> nat option \<Rightarrow> state \<Rightarrow> unit result" where
  "appendChild parent new st = insertBefore parent new None st"

text \<open>\<open>parent.removeChild(child)\<close>: the child becomes a detached tree.\<close>

definition removeChild :: "nat option \<Rightarrow> nat option \<Rightarrow> state \<Rightarrow> unit result" where
  "removeChild parent child st =
     (case parent of
        None \<Rightarrow> (Inl TypeError, st)
      | Some p \<Rightarrow>
         (case child of
            None \<Rightarrow> (Inl TypeError, st)
          | Some c \<Rightarrow>
             (case nodeOf st c of
                None \<Rightarrow> (Inl TypeError, st)
              | Some x \<Rightarrow>
                  if parentNode st c \<noteq> Some p then (Inl DOMException, st)
                  else (Inr (), st\<lparr>forest := cuts c (forest st) @ [x]\<rparr>))))"

text \<open>\<open>parent.replaceChild(new, old)\<close>: \<open>new\<close> takes the place of \<open>old\<close>.\<close>

definition replaceChild :: "nat option \<Rightarrow> nat option \<Rightarrow> nat option \<Rightarrow> state \<Rightarrow> unit result" where
  "replaceChild parent new old st =
     (case old of
        None \<Rightarrow> (Inl TypeError, st)
      | Some c \<Rightarrow>
          andThen (insertBefore parent new (Some c) st)
            (\<lambda>u st1. removeChild parent (Some c) st1))"

text \<open>\<open>parent.normalize()\<close>: the Text nodes that disappear from the subtree become detached.\<close>

definition normalize :: "nat option \<Rightarrow> state \<Rightarrow> unit result" where
  "normalize parent st =
     (case parent of
        None \<Rightarrow> (Inl TypeError, st)
      | Some p \<Rightarrow>
         (case nodeOf st p of
            None \<Rightarrow> (Inl TypeError, st)
          | Some x \<Rightarrow>
              (Inr (), st\<lparr>forest :=
                 replaceNodes p (normalizeNode x) (forest st) @
                 filter (\<lambda>t. nodeId t \<notin> set (nodeIds (normalizeNode x))) (textNodes x)\<rparr>)))"

section \<open>The replacement function\<close>

text \<open>
  The third argument of \<open>findAndReplaceDOMText\<close>: a node name, a node to use as the
  stencil, or a function \<open>(fill, matchIndex)\<close> that builds the node itself on the host's
  heap.
\<close>

type_synonym callback = "string \<Rightarrow> nat \<Rightarrow> dnode list \<times> nat \<Rightarrow> nat \<times> dnode list \<times> nat"

datatype replacement = TagName string | StencilNode nat | Callback callback

datatype maker = FromStencil nat | FromFunction callback

text \<open>
  \<open>makeReplacementNode\<close>. With a stencil: a fresh \<open>div\<close> receives the stencil's
  serialisation as its \<open>innerHTML\<close>, so that its children are what the host's parser makes
  of it; its first child, which may be \<open>null\<close>, is the new element \<open>el\<close>, and a non-empty
  \<open>fill\<close> becomes a Text node appended to \<open>el\<close>.
\<close>

definition setInnerHTML :: "host \<Rightarrow> nat \<Rightarrow> nat \<Rightarrow> state \<Rightarrow> unit result" where
  "setInnerHTML h clone stencil st =
     (case (nodeOf st clone, nodeOf st stencil) of
        (Some (Element i t cs), Some x) \<Rightarrow>
          (case reparse h x (nextId st) of
             (xs, k) \<Rightarrow>
               (Inr (), st\<lparr>forest := setChildrens clone xs (forest st) @ cs, nextId := k\<rparr>))
      | _ \<Rightarrow> (Inl TypeError, st))"

definition makeReplacementNode :: "host \<Rightarrow> maker \<Rightarrow> string \<Rightarrow> nat \<Rightarrow> state \<Rightarrow> nat option result" where
  "makeReplacementNode h mk fill matchIndex st =
     (case mk of
        FromFunction f \<Rightarrow>
          (case f fill matchIndex (forest st, nextId st) of
             (el, fo, k) \<Rightarrow> (Inr (Some el), st\<lparr>forest := fo, nextId := k\<rparr>))
      | FromStencil stencilNode \<Rightarrow>
          andThen (createElement h ''div'' st) (\<lambda>clone st1.
          andThen (setInnerHTML h clone stencilNode st1) (\<lambda>u st2.
            (let el = firstChild st2 clone in
             if fill \<noteq> [] then
               andThen (createTextNode fill st2) (\<lambda>t st3.
               andThen (appendChild el (Some t) st3) (\<lambda>u st4. (Inr el, st4)))
             else (Inr el, st2)))))"

text \<open>\<open>_genReplacer\<close>: empties \<open>reverts\<close> and fixes how replacement nodes are made.\<close>

definition genReplacer :: "host \<Rightarrow> replacement \<Rightarrow> state \<Rightarrow> maker result" where
  "genReplacer h nodeName st =
     (let st0 = st\<lparr>reverts := Some []\<rparr> in
      case nodeName of
        Callback f \<Rightarrow> (Inr (FromFunction f), st0)
      | StencilNode n \<Rightarrow> (Inr (FromStencil n), st0)
      | TagName t \<Rightarrow> andThen (createElement h t st0) (\<lambda>stencilNode st1. (Inr (FromStencil stencilNode), st1)))"

text \<open>The object handed to the replacement function.\<close>

record range =
  rStartNode :: nat
  rStartNodeIndex :: int
  rEndNode :: nat
  rEndNodeIndex :: int
  rInnerNodes :: "nat list"
  rMatch :: "string list"
  rMatchIndex :: nat

definition pushRevert :: "revertAction \<Rightarrow> state \<Rightarrow> unit result" where
  "pushRevert r st =
     (case reverts st of
        None \<Rightarrow> (Inl TypeError, st)
      | Some rs \<Rightarrow> (Inr (), st\<lparr>reverts := Some (rs @ [r])\<rparr>))"

text \<open>\<open>node.data.substring(...)\<close>: reading \<open>data\<close> off anything but a Text node gives
  \<open>undefined\<close>, and the call on it throws.\<close>

definition dataOf :: "nat \<Rightarrow> state \<Rightarrow> string result" where
  "dataOf n st = (case nodeData st n of None \<Rightarrow> (Inl TypeError, st) | Some d \<Rightarrow> (Inr d, st))"

text \<open>\<open>range.match[0]\<close>; an empty array gives \<open>undefined\<close>, which fills nothing.\<close>

definition match0 :: "string list \<Rightarrow> string" where
  "match0 ms = (case ms of [] \<Rightarrow> [] | s # r \<Rightarrow> s)"

text \<open>The branch \<open>startNode === endNode\<close> of \<open>replace\<close> (lines 220 to 243).\<close>

definition replaceSingle :: "host \<Rightarrow> maker \<Rightarrow> range \<Rightarrow> state \<Rightarrow> nat option result" where
  "replaceSingle h mk r st =
     (let node = rStartNode r in
      andThen (if 0 < rStartNodeIndex r then
                 andThen (dataOf node st) (\<lambda>d st1.
                 andThen (createTextNode (substring d 0 (rStartNodeIndex r)) st1) (\<lambda>beforeNode st2.
                   insertBefore (parentNode st2 node) (Some beforeNode) (Some node) st2))
               else (Inr (), st)) (\<lambda>u st3.
      andThen (makeReplacementNode h mk (match0 (rMatch r)) (rMatchIndex r) st3) (\<lambda>el st4.
      andThen (insertBefore (parentNode st4 node) el (Some node) st4) (\<lambda>u st5.
      andThen (if (case nodeLength st5 node of None \<Rightarrow> False | Some len \<Rightarrow> rEndNodeIndex r < int len) then
                 andThen (dataOf node st5) (\<lambda>d st6.
                 andThen (createTextNode (substringFrom d (rEndNodeIndex r)) st6) (\<lambda>afterNode st7.
                   insertBefore (parentNode st7 node) (Some afterNode) (Some node) st7))
               else (Inr (), st5)) (\<lambda>u st8.
      andThen (removeChild (parentNode st8 node) (Some node) st8) (\<lambda>u st9.
      andThen (pushRevert (RevertOne el) st9) (\<lambda>u st10.
        (Inr el, st10))))))))"

text \<open>The loop over \<open>range.innerNodes\<close> (lines 250 to 255).\<close>

fun replaceInner :: "host \<Rightarrow> maker \<Rightarrow> nat \<Rightarrow> nat list \<Rightarrow> nat option list \<Rightarrow> state \<Rightarrow> nat option list result" where
  "replaceInner h mk matchIndex [] innerEls st = (Inr innerEls, st)"
| "replaceInner h mk matchIndex (innerNode # rest) innerEls st =
     andThen (dataOf innerNode st) (\<lambda>d st1.
     andThen (makeReplacementNode h mk d matchIndex st1) (\<lambda>innerEl st2.
     andThen (replaceChild (parentNode st2 innerNode) innerEl (Some innerNode) st2) (\<lambda>u st3.
       replaceInner h mk matchIndex rest (innerEls @ [innerEl]) st3)))"

text \<open>The other branch of \<open>replace\<close> (lines 244 to 275).\<close>

definition replaceSpan :: "host \<Rightarrow> maker \<Rightarrow> range \<Rightarrow> state \<Rightarrow> nat option result" where
  "replaceSpan h mk r st =
     (let startNode = rStartNode r; endNode = rEndNode r; matchIndex = rMatchIndex r in
      andThen (dataOf startNode st) (\<lambda>ds st1.
      andThen (createTextNode (substring ds 0 (rStartNodeIndex r)) st1) (\<lambda>beforeNode st2.
      andThen (dataOf endNode st2) (\<lambda>de st3.
      andThen (createTextNode (substringFrom de (rEndNodeIndex r)) st3) (\<lambda>afterNode st4.
      andThen (makeReplacementNode h mk (substringFrom ds (rStartNodeIndex r)) matchIndex st4) (\<lambda>elA st5.
      andThen (replaceInner h mk matchIndex (rInnerNodes r) [] st5) (\<lambda>innerEls st6.
      andThen (makeReplacementNode h mk (substring de 0 (rEndNodeIndex r)) matchIndex st6) (\<lambda>elB st7.
      andThen (insertBefore (parentNode st7 startNode) (Some beforeNode) (Some startNode) st7) (\<lambda>u st8.
      andThen (insertBefore (parentNode st8 startNode) elA (Some startNode) st8) (\<lambda>u st9.
      andThen (removeChild (parentNode st9 startNode) (Some startNode) st9) (\<lambda>u st10.
      andThen (insertBefore (parentNode st10 endNode) elB (Some endNode) st10) (\<lambda>u st11.
      andThen (insertBefore (parentNode st11 endNode) (Some afterNode) (Some endNode) st11) (\<lambda>u st12.
      andThen (removeChild (parentNode st12 endNode) (Some endNode) st12) (\<lambda>u st13.
      andThen (pushRevert (RevertSpan elA innerEls elB) st13) (\<lambda>u st14.
        (Inr elB, st14))))))))))))))))"

definition replace :: "host \<Rightarrow> maker \<Rightarrow> range \<Rightarrow> state \<Rightarrow> nat option result" where
  "replace h mk r st =
     (if rStartNode r = rEndNode r then replaceSingle h mk r st else replaceSpan h mk r st)"

section \<open>Undoing\<close>

text \<open>What an undo closure does to one replacement node (lines 238 to 241, 268 to 271).\<close>

definition unwrap :: "nat option \<Rightarrow> state \<Rightarrow> unit result" where
  "unwrap el st =
     (case el of
        None \<Rightarrow> (Inl TypeError, st)
      | Some e \<Rightarrow>
          (let pnode = parentNode st e in
           andThen (insertBefore pnode (firstChild st e) (Some e) st) (\<lambda>u st1.
           andThen (removeChild pnode (Some e) st1) (\<lambda>u st2.
             normalize pnode st2))))"

fun unwrapAll :: "nat option list \<Rightarrow> state \<Rightarrow> unit result" where
  "unwrapAll [] st = (Inr (), st)"
| "unwrapAll (el # els) st = andThen (unwrap el st) (\<lambda>u st1. unwrapAll els st1)"

text \<open>\<open>reverts[i]()\<close>. The closure of the multi-node branch first puts \<open>elA\<close> in front of
  its array and \<open>elB\<close> behind it, and the array keeps them.\<close>

definition callRevert :: "nat \<Rightarrow> state \<Rightarrow> unit result" where
  "callRevert i st =
     (case reverts st of
        None \<Rightarrow> (Inl TypeError, st)
      | Some rs \<Rightarrow>
          if length rs \<le> i then (Inl TypeError, st)
          else (case rs ! i of
                  RevertOne el \<Rightarrow> unwrap el st
                | RevertSpan elA innerEls elB \<Rightarrow>
                    unwrapAll (elA # innerEls @ [elB])
                      (st\<lparr>reverts := Some (rs[i := RevertSpan elA (elA # innerEls @ [elB]) elB])\<rparr>)))"

fun callReverts :: "nat list \<Rightarrow> state \<Rightarrow> unit result" where
  "callReverts [] st = (Inr (), st)"
| "callReverts (i # is) st = andThen (callRevert i st) (\<lambda>u st1. callReverts is st1)"

text \<open>\<open>findAndReplaceDOMText.revert\<close> (lines 181 to 186).\<close>

definition revert :: "state \<Rightarrow> unit result" where
  "revert st =
     (case reverts st of
        None \<Rightarrow> (Inl TypeError, st)
      | Some rs \<Rightarrow>
          andThen (callReverts [0 ..< length rs] st) (\<lambda>u st1.
            (Inr (), st1\<lparr>reverts := Some []\<rparr>)))"

section \<open>Stepping through the matches\<close>

text \<open>The local variables of \<open>_stepThroughMatches\<close>.\<close>

record walk =
  curNode :: nat
  atIndex :: int
  startNode :: "nat option"
  endNode :: "nat option"
  startNodeIndex :: int
  endNodeIndex :: int
  innerNodes :: "nat list"
  matchLocation :: "descriptor option"
  matches :: "descriptor list"
  matchIndex :: nat

text \<open>\<open>matches.shift()\<close>.\<close>

definition shift :: "descriptor list \<Rightarrow> descriptor option \<times> descriptor list" where
  "shift ms = (case ms of [] \<Rightarrow> (None, []) | d # r \<Rightarrow> (Some d, r))"

text \<open>Lines 117 to 130, for a Text node of length \<open>len\<close> while a match is being located.\<close>

definition visitText :: "nat \<Rightarrow> descriptor \<Rightarrow> walk \<Rightarrow> walk" where
  "visitText len ml w =
     (let w1 = (if endNode w = None \<and> mend ml \<le> int len + atIndex w
                then w\<lparr>endNode := Some (curNode w), endNodeIndex := mend ml - atIndex w\<rparr>
                else if startNode w \<noteq> None
                then w\<lparr>innerNodes := innerNodes w @ [curNode w]\<rparr>
                else w);
          w2 = (if startNode w1 = None \<and> mstart ml < int len + atIndex w1
                then w1\<lparr>startNode := Some (curNode w1), startNodeIndex := mstart ml - atIndex w1\<rparr>
                else w1)
      in w2\<lparr>atIndex := atIndex w2 + int len\<rparr>)"

text \<open>Lines 116 to 131. Reading \<open>matchLocation[1]\<close> or \<open>matchLocation[0]\<close> throws when
  \<open>matchLocation\<close> is \<open>undefined\<close>.\<close>

definition visit :: "state \<Rightarrow> walk \<Rightarrow> error + walk" where
  "visit st w =
     (case nodeOf st (curNode w) of
        None \<Rightarrow> Inl TypeError
      | Some (Element i t cs) \<Rightarrow> Inr w
      | Some (Text i d) \<Rightarrow>
          (case matchLocation w of
             Some ml \<Rightarrow> Inr (visitText (length d) ml w)
           | None \<Rightarrow>
               if endNode w \<noteq> None \<and> startNode w \<noteq> None
               then Inr (w\<lparr>innerNodes := innerNodes w @ [curNode w], atIndex := atIndex w + int (length d)\<rparr>)
               else Inl TypeError))"

text \<open>The object built at lines 134 to 142.\<close>

definition rangeOf :: "walk \<Rightarrow> nat \<Rightarrow> nat \<Rightarrow> range" where
  "rangeOf w s e =
     \<lparr>rStartNode = s, rStartNodeIndex = startNodeIndex w, rEndNode = e,
      rEndNodeIndex = endNodeIndex w, rInnerNodes = innerNodes w,
      rMatch = (case matchLocation w of None \<Rightarrow> [] | Some ml \<Rightarrow> mtext ml),
      rMatchIndex = matchIndex w\<rparr>"

text \<open>
  Lines 146 to 151, after the replacement function has returned: \<open>atIndex\<close> steps back by
  what the end node holds after the match, and the next match is taken. The end node was
  \<open>curNode\<close> when \<open>nodeType === 3\<close> held, so its \<open>length\<close> is a number; the model throws
  where it is not.
\<close>

definition afterReplace :: "state \<Rightarrow> walk \<Rightarrow> nat \<Rightarrow> error + walk" where
  "afterReplace st w e =
     (case nodeLength st e of
        None \<Rightarrow> Inl TypeError
      | Some len \<Rightarrow>
          (case shift (matches w) of
             (ml, rest) \<Rightarrow>
               Inr (w\<lparr>atIndex := atIndex w - (int len - endNodeIndex w),
                      startNode := None, endNode := None, innerNodes := [],
                      matchLocation := ml, matches := rest,
                      matchIndex := Suc (matchIndex w)\<rparr>)))"

text \<open>
  The inner loop "move forward or up" (lines 162 to 171): \<open>Some c\<close> when it breaks with a
  new \<open>curNode\<close>, \<open>None\<close> when it breaks out of the walk. A parent that is \<open>null\<close> differs
  from \<open>node\<close>, becomes \<open>curNode\<close>, and the next read of \<open>curNode.nextSibling\<close> throws.
\<close>

fun moveForwardOrUp :: "nat \<Rightarrow> nat \<Rightarrow> nat \<Rightarrow> state \<Rightarrow> (error + nat option) option" where
  "moveForwardOrUp 0 node cur st = None"
| "moveForwardOrUp (Suc fuel) node cur st =
     (case nextSibling st cur of
        Some s \<Rightarrow> Some (Inr (Some s))
      | None \<Rightarrow>
          (case parentNode st cur of
             None \<Rightarrow> Some (Inl TypeError)
           | Some p \<Rightarrow> if p \<noteq> node then moveForwardOrUp fuel node p st else Some (Inr None)))"

text \<open>The loop \<open>out: while (true)\<close> (lines 114 to 173); \<open>None\<close> when the fuel runs out.\<close>

fun stepLoop :: "host \<Rightarrow> nat \<Rightarrow> nat \<Rightarrow> maker \<Rightarrow> walk \<Rightarrow> state \<Rightarrow> unit result option" where
  "stepLoop h 0 node mk w st = None"
| "stepLoop h (Suc fuel) node mk w st =
     (case visit st w of
        Inl e \<Rightarrow> Some (Inl e, st)
      | Inr w1 \<Rightarrow>
          (case (startNode w1, endNode w1) of
             (Some s, Some e) \<Rightarrow>
               (case replace h mk (rangeOf w1 s e) st of
                  (Inl er, st1) \<Rightarrow> Some (Inl er, st1)
                | (Inr el, st1) \<Rightarrow>
                    (case afterReplace st1 w1 e of
                       Inl er \<Rightarrow> Some (Inl er, st1)
                     | Inr w2 \<Rightarrow>
                         if matchLocation w2 = None then Some (Inr (), st1)
                         else (case el of
                                 None \<Rightarrow> Some (Inl TypeError, st1)
                               | Some cur \<Rightarrow>
                                  (case moveForwardOrUp (Suc fuel) node cur st1 of
                                     None \<Rightarrow> None
                                   | Some (Inl er) \<Rightarrow> Some (Inl er, st1)
                                   | Some (Inr None) \<Rightarrow> Some (Inr (), st1)
                                   | Some (Inr (Some c)) \<Rightarrow> stepLoop h fuel node mk (w2\<lparr>curNode := c\<rparr>) st1))))
           | _ \<Rightarrow>
               (case firstChild st (curNode w1) of
                  Some c \<Rightarrow> stepLoop h fuel node mk (w1\<lparr>curNode := c\<rparr>) st
                | None \<Rightarrow>
                    (case nextSibling st (curNode w1) of
                       Some c \<Rightarrow> stepLoop h fuel node mk (w1\<lparr>curNode := c\<rparr>) st
                     | None \<Rightarrow>
                         (case moveForwardOrUp (Suc fuel) node (curNode w1) st of
                            None \<Rightarrow> None
                          | Some (Inl er) \<Rightarrow> Some (Inl er, st)
                          | Some (Inr None) \<Rightarrow> Some (Inr (), st)
                          | Some (Inr (Some c)) \<Rightarrow> stepLoop h fuel node mk (w1\<lparr>curNode := c\<rparr>) st)))))"

text \<open>\<open>_stepThroughMatches(node, matches, replaceFn)\<close>.\<close>

definition stepThroughMatches :: "host \<Rightarrow> nat \<Rightarrow> nat \<Rightarrow> descriptor list \<Rightarrow> maker \<Rightarrow> state \<Rightarrow> unit result option" where
  "stepThroughMatches h fuel node ms mk st =
     (case shift ms of
        (ml, rest) \<Rightarrow>
          stepLoop h fuel node mk
            \<lparr>curNode = node, atIndex = 0, startNode = None, endNode = None,
             startNodeIndex = 0, endNodeIndex = 0, innerNodes = [],
             matchLocation = ml, matches = rest, matchIndex = 0\<rparr> st)"

section \<open>The entry point\<close>

text \<open>
  \<open>findAndReplaceDOMText(regex, node, replacementNode, captureGroup)\<close>. \<open>None\<close> when the
  fuel of one of its loops runs out; otherwise whether it returned or what it threw, and
  the state it left.
\<close>

definition findAndReplaceDOMText ::
  "host \<Rightarrow> nat \<Rightarrow> regex \<Rightarrow> nat \<Rightarrow> replacement \<Rightarrow> nat option \<Rightarrow> state \<Rightarrow> unit result option" where
  "findAndReplaceDOMText h fuel re node replacementNode captureGroup st =
     (case getTextAt st node of
        None \<Rightarrow> Some (Inl TypeError, st)
      | Some txt \<Rightarrow>
          (case genReplacer h replacementNode st of
             (Inl e, st1) \<Rightarrow> Some (Inl e, st1)
           | (Inr replaceFn, st1) \<Rightarrow>
               if txt = [] then Some (Inr (), st1)
               else (case locate fuel re txt captureGroup (lastIndex st1) of
                       None \<Rightarrow> None
                     | Some (Inl e, li) \<Rightarrow> Some (Inl e, st1\<lparr>lastIndex := li\<rparr>)
                     | Some (Inr ms, li) \<Rightarrow>
                         if ms \<noteq> [] then stepThroughMatches h fuel node ms replaceFn (st1\<lparr>lastIndex := li\<rparr>)
                         else Some (Inr (), st1\<lparr>lastIndex := li\<rparr>))))"

section \<open>The host of the scenarios\<close>

text \<open>
  An HTML document, as far as the scenarios use it. A name for \<open>createElement\<close> is a
  letter, \<open>_\<close> or \<open>:\<close> followed by letters, digits, \<open>-\<close>, \<open>.\<close>, \<open>_\<close> and \<open>:\<close> (names are
  taken to be ASCII), and the element gets it in lower case.
\<close>

definition nameStartChars :: string where
  "nameStartChars = ''abcdefghijklmnopqrstuvwxyzABCDEFGHIJKLMNOPQRSTUVWXYZ_:''"

definition nameChars :: string where
  "nameChars = nameStartChars @ ''0123456789-.''"

definition isName :: "string \<Rightarrow> bool" where
  "isName t \<longleftrightarrow>
     (case t of [] \<Rightarrow> False
      | c # cs \<Rightarrow> c \<in> set nameStartChars \<and> list_all (\<lambda>x. x \<in> set nameChars) cs)"

definition asciiLower :: "char \<Rightarrow> char" where
  "asciiLower c =
     (case map_of (zip ''ABCDEFGHIJKLMNOPQRSTUVWXYZ'' ''abcdefghijklmnopqrstuvwxyz'') c of
        None \<Rightarrow> c | Some l \<Rightarrow> l)"

text \<open>
  What the fragment parser, inside a \<open>div\<close>, makes of the serialisation of a stencil. Of an
  element without attributes and children, \<open><t></t>\<close>: nothing when \<open>t\<close> is a part of a
  table, whose tags are ignored there; for \<open>plaintext\<close> the element with the rest of the
  input, \<open></plaintext>\<close>, as its text; else the one element, empty. A Text node is read
  back unless it is empty. The scenarios hand over nothing else; an element with children
  is taken to be read back as its normalised tree, which is so when its children nest as
  the parser lets them and none of them bears one of these names.
\<close>

definition tableParts :: "string list" where
  "tableParts = [''caption'', ''col'', ''colgroup'', ''frame'', ''head'', ''tbody'', ''td'',
                 ''tfoot'', ''th'', ''thead'', ''tr'']"

fun htmlReparse :: "dnode \<Rightarrow> nat \<Rightarrow> dnode list \<times> nat" where
  "htmlReparse (Text i d) k = (if d = [] then ([], k) else ([Text k d], Suc k))"
| "htmlReparse (Element i t []) k =
     (if t \<in> set tableParts then ([], k)
      else if t = ''plaintext''
        then ([Element k t [Text (Suc k) ''</plaintext>'']], Suc (Suc k))
      else ([Element k t []], Suc k))"
| "htmlReparse (Element i t (c # cs)) k =
     (case copyNode (normalizeNode (Element i t (c # cs))) k of (x, k') \<Rightarrow> ([x], k'))"

definition browser :: host where
  "browser =
     \<lparr>elementName = (\<lambda>t. if isName t then Some (map asciiLower t) else None),
      reparse = htmlReparse\<rparr>"

section \<open>Patterns used in the scenarios\<close>

text \<open>
  What the host's engine does for the patterns that the scenarios name, each written as
  a search over the rest of the text from position \<open>i\<close> on.
\<close>

text \<open>A literal pattern such as \<open>/test/\<close>: its first occurrence.\<close>

fun searchLiteral :: "string \<Rightarrow> string \<Rightarrow> nat \<Rightarrow> rmatch option" where
  "searchLiteral pat [] i = (if pat = [] then Some \<lparr>index = i, groups = [Some []]\<rparr> else None)"
| "searchLiteral pat (c # cs) i =
     (if startsWith (c # cs) pat then Some \<lparr>index = i, groups = [Some pat]\<rparr>
      else searchLiteral pat cs (Suc i))"

definition literal :: "bool \<Rightarrow> string \<Rightarrow> regex" where
  "literal g pat =
     \<lparr>global = g,
      search = (\<lambda>txt i. if length txt < i then None else searchLiteral pat (drop i txt) i)\<rparr>"

text \<open>\<open>/x*/\<close> for a character \<open>x\<close>: it matches at once, the longest run of \<open>x\<close>, which may
  be empty.\<close>

definition starOf :: "bool \<Rightarrow> char \<Rightarrow> regex" where
  "starOf g x =
     \<lparr>global = g,
      search = (\<lambda>txt i. if length txt < i then None
                        else Some \<lparr>index = i, groups = [Some (takeWhile (\<lambda>c. c = x) (drop i txt))]\<rparr>)\<rparr>"




text \<open>\<open>/a(x*)/\<close>: an \<open>a\<close> and the run of \<open>x\<close> after it; group 1 is the run, which
  takes part in the match even when it is empty.\<close>

fun searchARun :: "string \<Rightarrow> nat \<Rightarrow> rmatch option" where
  "searchARun [] i = None"
| "searchARun (c # cs) i =
     (if c = CHR ''a''
      then Some \<lparr>index = i,
                 groups = [Some (c # takeWhile (\<lambda>y. y = CHR ''x'') cs),
                           Some (takeWhile (\<lambda>y. y = CHR ''x'') cs)]\<rparr>
      else searchARun cs (Suc i))"

definition aRun :: "bool \<Rightarrow> regex" where
  "aRun g =
     \<lparr>global = g,
      search = (\<lambda>txt i. if length txt < i then None else searchARun (drop i txt) i)\<rparr>"

text \<open>\<open>/a(?=(..))/\<close>: an \<open>a\<close> that two more characters follow; the lookahead consumes
  nothing, so \<open>m[0]\<close> is \<open>"a"\<close>, and group 1 is the two characters after it.\<close>

fun searchALook :: "string \<Rightarrow> nat \<Rightarrow> rmatch option" where
  "searchALook [] i = None"
| "searchALook (c # cs) i =
     (if c = CHR ''a'' \<and> 2 \<le> length cs
      then Some \<lparr>index = i, groups = [Some [c], Some (take 2 cs)]\<rparr>
      else searchALook cs (Suc i))"

definition aLook :: "bool \<Rightarrow> regex" where
  "aLook g =
     \<lparr>global = g,
      search = (\<lambda>txt i. if length txt < i then None else searchALook (drop i txt) i)\<rparr>"


text \<open>The captured text of group \<open>k\<close> is found inside the full match, for every match the
  engine reports: so it is for a group outside lookarounds.\<close>

definition captureInside :: "regex \<Rightarrow> nat \<Rightarrow> bool" where
  "captureInside re k \<longleftrightarrow>
     (\<forall>txt i m m0 c. search re txt i = Some m \<longrightarrow> groupAt m 0 = Some m0 \<longrightarrow> groupAt m k = Some c
        \<longrightarrow> 0 \<le> indexOf m0 c)"

text \<open>Consecutive descriptors do not overlap: \<open>a.end \<le> b.start\<close>.\<close>

fun ordered :: "descriptor list \<Rightarrow> bool" where
  "ordered [] = True"
| "ordered [a] = True"
| "ordered (a # b # ds) = (mend a \<le> mstart b \<and> ordered (b # ds))"

section \<open>Documents used in the scenarios\<close>

text \<open>The state before any call: \<open>reverts\<close> is still \<open>undefined\<close>.\<close>

definition testDoc :: state where
  "testDoc = \<lparr>forest = [Element 0 ''p'' [Text 1 ''This is a test'']], nextId = 2,
              reverts = None, lastIndex = 0\<rparr>"

definition testDocReplaced :: state where
  "testDocReplaced =
     \<lparr>forest = [Element 0 ''p'' [Text 3 ''This is a '', Element 5 ''em'' [Text 6 ''test'']],
                Element 2 ''em'' [], Element 4 ''div'' [], Text 1 ''This is a test''],
      nextId = 7, reverts = Some [RevertOne (Some 5)], lastIndex = 0\<rparr>"

definition testDocReverted :: state where
  "testDocReverted =
     \<lparr>forest = [Element 0 ''p'' [Text 3 ''This is a test''], Element 2 ''em'' [],
                Element 4 ''div'' [], Text 1 ''This is a test'', Element 5 ''em'' [],
                Text 6 ''test''],
      nextId = 7, reverts = Some [], lastIndex = 0\<rparr>"

definition abcDoc :: state where
  "abcDoc = \<lparr>forest = [Element 0 ''p'' [Text 1 ''abc'']], nextId = 2, reverts = None,
             lastIndex = 0\<rparr>"

text \<open>A paragraph whose three Text children are \<open>"a"\<close>, the empty string and \<open>"b"\<close>.\<close>

definition gapDoc :: state where
  "gapDoc = \<lparr>forest = [Element 0 ''p'' [Text 1 ''a'', Text 2 [], Text 3 ''b'']], nextId = 4,
             reverts = None, lastIndex = 0\<rparr>"

definition gapDocReplaced :: state where
  "gapDocReplaced =
     \<lparr>forest = [Element 0 ''p'' [Text 5 [], Element 8 ''em'' [Text 9 ''a''], Element 11 ''em'' [],
                                 Element 13 ''em'' [Text 14 ''b''], Text 6 []],
                Element 4 ''em'' [], Element 7 ''div'' [], Element 10 ''div'' [], Text 2 [],
                Element 12 ''div'' [], Text 1 ''a'', Text 3 ''b''],
      nextId = 15, reverts = Some [RevertSpan (Some 8) [Some 11] (Some 13)], lastIndex = 0\<rparr>"

definition gapDocStuck :: state where
  "gapDocStuck =
     \<lparr>forest = [Element 0 ''p'' [Text 9 ''a'', Element 11 ''em'' [], Element 13 ''em'' [Text 14 ''b'']],
                Element 4 ''em'' [], Element 7 ''div'' [], Element 10 ''div'' [], Text 2 [],
                Element 12 ''div'' [], Text 1 ''a'', Text 3 ''b'', Element 8 ''em'' [], Text 5 [],
                Text 6 []],
      nextId = 15,
      reverts = Some [RevertSpan (Some 8) [Some 8, Some 11, Some 13] (Some 13)], lastIndex = 0\<rparr>"

text \<open>The paragraph \<open>"This is a test"\<close> once \<open>_genReplacer\<close> has made the stencil for
  \<open>em\<close>, and the walk of \<open>/is/g\<close> as it reaches the Text node: the first match is
  \<open>[2, 4]\<close>, the second \<open>[5, 7]\<close>.\<close>

definition isDoc :: state where
  "isDoc = \<lparr>forest = [Element 0 ''p'' [Text 1 ''This is a test''], Element 2 ''em'' []],
            nextId = 3, reverts = Some [], lastIndex = 0\<rparr>"

definition isWalk :: walk where
  "isWalk = \<lparr>curNode = 1, atIndex = 0, startNode = None, endNode = None, startNodeIndex = 0,
             endNodeIndex = 0, innerNodes = [], matchLocation = Some (2, 4, [''is'']),
             matches = [(5, 7, [''is''])], matchIndex = 0\<rparr>"

definition isWalkFound :: walk where
  "isWalkFound = \<lparr>curNode = 1, atIndex = 14, startNode = Some 1, endNode = Some 1,
             startNodeIndex = 2, endNodeIndex = 4, innerNodes = [],
             matchLocation = Some (2, 4, [''is'']), matches = [(5, 7, [''is''])], matchIndex = 0\<rparr>"

definition isDocReplaced :: state where
  "isDocReplaced =
     \<lparr>forest = [Element 0 ''p'' [Text 3 ''Th'', Element 5 ''em'' [Text 6 ''is''], Text 7 '' is a test''],
                Element 2 ''em'' [], Element 4 ''div'' [], Text 1 ''This is a test''],
      nextId = 8, reverts = Some [RevertOne (Some 5)], lastIndex = 0\<rparr>"

section \<open>Predicates of the proofs\<close>

text \<open>The host makes an element for the node name that is handed over.\<close>

definition replacementOk :: "host \<Rightarrow> replacement \<Rightarrow> bool" where
  "replacementOk h r \<longleftrightarrow>
     (case r of TagName t \<Rightarrow> elementName h t \<noteq> None | StencilNode n \<Rightarrow> True | Callback f \<Rightarrow> True)"


text \<open>The module variable \<open>reverts\<close> holds an array.\<close>

definition hasReverts :: "state \<Rightarrow> bool" where
  "hasReverts st \<longleftrightarrow> reverts st \<noteq> None"

text \<open>The nodes of a tree in document order, each with its identity and, for a Text node,
  its data; and the text such a list holds.\<close>

fun flat :: "dnode \<Rightarrow> (nat \<times> string option) list"
  and flats :: "dnode list \<Rightarrow> (nat \<times> string option) list" where
  "flat (Text i d) = [(i, Some d)]"
| "flat (Element i t cs) = (i, None) # flats cs"
| "flats [] = []"
| "flats (c # cs) = flat c @ flats cs"

definition txtOf :: "(nat \<times> string option) list \<Rightarrow> string" where
  "txtOf xs = concat (map (\<lambda>e. case snd e of None \<Rightarrow> [] | Some d \<Rightarrow> d) xs)"

text \<open>The identities of the heap are distinct, and all below the next unused one.\<close>

definition wfState :: "state \<Rightarrow> bool" where
  "wfState st \<longleftrightarrow>
     distinct (nodesIds (forest st)) \<and> (\<forall>i \<in> set (nodesIds (forest st)). i < nextId st)"

text \<open>Every node of a tree, as the tree below it, in document order.\<close>

fun subtrees :: "dnode \<Rightarrow> dnode list" and subtreess :: "dnode list \<Rightarrow> dnode list" where
  "subtrees (Text i d) = [Text i d]"
| "subtrees (Element i t cs) = Element i t cs # subtreess cs"
| "subtreess [] = []"
| "subtreess (c # cs) = subtrees c @ subtreess cs"

text \<open>
  The state as the walk sees it: the heap is well formed, \<open>R\<close> is the element \<open>T\<close>, and
  the nodes \<open>ys\<close> are in the heap outside \<open>T\<close>, with identities that differ from one
  another and from those of \<open>T\<close>: the stencil, the nodes made and not yet inserted,
  the Text nodes taken out.
\<close>

definition world :: "state \<Rightarrow> nat \<Rightarrow> dnode \<Rightarrow> dnode list \<Rightarrow> bool" where
  "world st R T ys \<longleftrightarrow>
     wfState st \<and> nodeOf st R = Some T \<and> (\<exists>tg cs. T = Element R tg cs) \<and>
     (\<forall>Y \<in> set ys. nodeOf st (nodeId Y) = Some Y) \<and> distinct (nodeIds T @ nodesIds ys)"

text \<open>The identities of the Text nodes in a piece of the document order.\<close>

definition textIds :: "(nat \<times> string option) list \<Rightarrow> nat list" where
  "textIds xs = map fst (filter (\<lambda>e. snd e \<noteq> None) xs)"




text \<open>
  The replacement node that line 205 makes from an empty stencil named \<open>tg\<close> for the
  text \<open>fill\<close>: an element named \<open>tg\<close> with the Text node \<open>fill\<close> as its one child, and
  without a child when \<open>fill\<close> is empty. The Text node is made right after the element.
\<close>

definition wrapper :: "string \<Rightarrow> nat \<Rightarrow> string \<Rightarrow> dnode" where
  "wrapper tg e fill = Element e tg (if fill = [] then [] else [Text (Suc e) fill])"



text \<open>The nodes that the host's parser makes are new: their identities are distinct and
  taken from the unused ones.\<close>

definition parsesFresh :: "host \<Rightarrow> bool" where
  "parsesFresh h \<longleftrightarrow>
     (\<forall>x k. k \<le> snd (reparse h x k) \<and> distinct (nodesIds (fst (reparse h x k))) \<and>
            (\<forall>i \<in> set (nodesIds (fst (reparse h x k))). k \<le> i \<and> i < snd (reparse h x k)))"

text \<open>The heap is well formed and holds the Text node \<open>n\<close> with the data \<open>d\<close>.\<close>

definition holdsText :: "nat \<Rightarrow> string \<Rightarrow> state \<Rightarrow> bool" where
  "holdsText n d st \<longleftrightarrow> wfState st \<and> (n, Some d) \<in> set (flats (forest st))"

section \<open>Documents of the text-preservation scenarios\<close>




text \<open>The paragraph of \<open>runDoc\<close> once the stencil \<open>em\<close> is made, and the portion of the
  match \<open>"xxx"\<close>: the last character of \<open>"bax"\<close>, the Text node of \<open><b>\<close>, the first
  character of \<open>"xa"\<close>.\<close>

definition runDocReady :: state where
  "runDocReady =
     \<lparr>forest = [Element 0 ''p'' [Text 1 ''bax'', Element 2 ''b'' [Text 3 ''x''], Text 4 ''xa''],
                Element 5 ''em'' []],
      nextId = 6, reverts = Some [], lastIndex = 0\<rparr>"

definition runRange :: range where
  "runRange = \<lparr>rStartNode = 1, rStartNodeIndex = 2, rEndNode = 4, rEndNodeIndex = 1,
               rInnerNodes = [3], rMatch = [''xxx''], rMatchIndex = 0\<rparr>"

text \<open>What \<open>/b/\<close> and the node name \<open>em\<close> make of the paragraph \<open>"abc"\<close> when the call is
  given the Text node, not the paragraph; and what \<open>/b/\<close> and the node name \<open>plaintext\<close>
  make of the paragraph.\<close>

definition abcDocText :: state where
  "abcDocText =
     \<lparr>forest = [Element 0 ''p'' [Text 3 ''a'', Element 5 ''em'' [Text 6 ''b''], Text 7 ''c''],
                Element 2 ''em'' [], Element 4 ''div'' [], Text 1 ''abc''],
      nextId = 8, reverts = Some [RevertOne (Some 5)], lastIndex = 0\<rparr>"

definition abcDocPlain :: state where
  "abcDocPlain =
     \<lparr>forest = [Element 0 ''p''
                  [Text 3 ''a'', Element 5 ''plaintext'' [Text 6 ''</plaintext>'', Text 7 ''b''],
                   Text 8 ''c''],
                Element 2 ''plaintext'' [], Element 4 ''div'' [], Text 1 ''abc''],
      nextId = 9, reverts = Some [RevertOne (Some 5)], lastIndex = 0\<rparr>"

section \<open>Facts about the host strings\<close>

lemma startsWith_iff: "startsWith s p \<longleftrightarrow> take (length p) s = p"
  by (induction s p rule: startsWith.induct) auto

lemma take_eq_length_le: "take n s = p \<Longrightarrow> n = length p \<Longrightarrow> length p \<le> length s"
  by (metis length_take min.cobounded1)

lemma indexOf_found:
  "0 \<le> indexOf s p \<Longrightarrow>
   nat (indexOf s p) + length p \<le> length s \<and> take (length p) (drop (nat (indexOf s p)) s) = p"
proof (induction s p rule: indexOf.induct)
  case (1 needle)
  then show ?case by (auto split: if_splits)
next
  case (2 x xs needle)
  show ?case
  proof (cases "startsWith (x # xs) needle")
    case True
    then have t: "take (length needle) (x # xs) = needle" by (simp add: startsWith_iff)
    then have "length needle \<le> length (x # xs)" by (rule take_eq_length_le) simp
    with t True show ?thesis by simp
  next
    case False
    with 2 have r: "0 \<le> indexOf xs needle" by (auto simp: Let_def split: if_splits)
    with 2 False have IH: "nat (indexOf xs needle) + length needle \<le> length xs \<and>
        take (length needle) (drop (nat (indexOf xs needle)) xs) = needle" by simp
    from False r have "indexOf (x # xs) needle = indexOf xs needle + 1" by (simp add: Let_def)
    then have "nat (indexOf (x # xs) needle) = Suc (nat (indexOf xs needle))" using r by simp
    then show ?thesis using IH by simp
  qed
qed



section \<open>Facts about the patterns of the scenarios\<close>

lemma engine_ok_suffix:
  assumes f: "\<And>s i m. f s i = Some m \<Longrightarrow>
      i \<le> index m \<and> (\<exists>m0. groupAt m 0 = Some m0 \<and> index m - i + length m0 \<le> length s \<and>
                          m0 = take (length m0) (drop (index m - i) s))"
  shows "engine_ok \<lparr>global = g, search = (\<lambda>txt i. if length txt < i then None else f (drop i txt) i)\<rparr>"
  unfolding engine_ok_def
proof (intro allI impI)
  fix tx i m
  assume "search \<lparr>global = g, search = (\<lambda>txt i. if length txt < i then None else f (drop i txt) i)\<rparr> tx i = Some m"
  then have le: "i \<le> length tx" and s: "f (drop i tx) i = Some m" by (auto split: if_splits)
  from f [OF s] obtain m0 where i: "i \<le> index m" and m0: "groupAt m 0 = Some m0"
    and l: "index m - i + length m0 \<le> length (drop i tx)"
    and e: "m0 = take (length m0) (drop (index m - i) (drop i tx))" by blast
  from i have "drop (index m - i) (drop i tx) = drop (index m) tx" by simp
  with e have "m0 = take (length m0) (drop (index m) tx)" by simp
  moreover from l i le have "index m + length m0 \<le> length tx" by simp
  ultimately show "i \<le> index m \<and> (\<exists>m0. groupAt m 0 = Some m0 \<and> index m + length m0 \<le> length tx \<and>
              m0 = take (length m0) (drop (index m) tx))" using i m0 by blast
qed

lemma searchLiteral_ok:
  "searchLiteral pat s i = Some m \<Longrightarrow>
      i \<le> index m \<and> (\<exists>m0. groupAt m 0 = Some m0 \<and> index m - i + length m0 \<le> length s \<and>
                          m0 = take (length m0) (drop (index m - i) s))"
proof (induction pat s i rule: searchLiteral.induct)
  case (1 pat i)
  then show ?case by (auto simp: groupAt_def split: if_splits)
next
  case (2 pat c cs i)
  show ?case
  proof (cases "startsWith (c # cs) pat")
    case True
    then have t: "take (length pat) (c # cs) = pat" by (simp add: startsWith_iff)
    then have "length pat \<le> length (c # cs)" by (rule take_eq_length_le) simp
    with 2 True t show ?thesis by (auto simp: groupAt_def)
  next
    case False
    with 2 have s: "searchLiteral pat cs (Suc i) = Some m" by simp
    from "2.IH" [OF False s] obtain m0 where "Suc i \<le> index m" "groupAt m 0 = Some m0"
      "index m - Suc i + length m0 \<le> length cs" "m0 = take (length m0) (drop (index m - Suc i) cs)"
      by blast
    moreover from this have "index m - i = Suc (index m - Suc i)" by simp
    ultimately show ?thesis by auto
  qed
qed

lemma engine_ok_literal: "engine_ok (literal g pat)"
  unfolding literal_def by (rule engine_ok_suffix) (rule searchLiteral_ok)

lemma searchARun_ok:
  "searchARun s i = Some m \<Longrightarrow>
      i \<le> index m \<and> (\<exists>m0. groupAt m 0 = Some m0 \<and> index m - i + length m0 \<le> length s \<and>
                          m0 = take (length m0) (drop (index m - i) s))"
proof (induction s i rule: searchARun.induct)
  case (1 i)
  then show ?case by simp
next
  case (2 c cs i)
  show ?case
  proof (cases "c = CHR ''a''")
    case True
    have "length (takeWhile (\<lambda>y. y = CHR ''x'') cs) \<le> length cs" by (rule length_takeWhile_le)
    moreover have "take (length (takeWhile (\<lambda>y. y = CHR ''x'') cs)) cs = takeWhile (\<lambda>y. y = CHR ''x'') cs"
      by (rule takeWhile_eq_take [symmetric])
    ultimately show ?thesis using 2 True by (auto simp: groupAt_def)
  next
    case False
    with 2 have s: "searchARun cs (Suc i) = Some m" by simp
    from "2.IH" [OF False s] obtain m0 where "Suc i \<le> index m" "groupAt m 0 = Some m0"
      "index m - Suc i + length m0 \<le> length cs" "m0 = take (length m0) (drop (index m - Suc i) cs)"
      by blast
    moreover from this have "index m - i = Suc (index m - Suc i)" by simp
    ultimately show ?thesis by auto
  qed
qed

lemma engine_ok_aRun: "engine_ok (aRun g)"
  unfolding aRun_def by (rule engine_ok_suffix) (rule searchARun_ok)

lemma indexOf_self: "indexOf s s = 0"
  by (cases s) (simp_all add: startsWith_iff)

lemma searchARun_groups:
  "searchARun s i = Some m \<Longrightarrow> \<exists>c r. groups m = [Some (c # r), Some r]"
  by (induction s i rule: searchARun.induct) (auto split: if_splits)

lemma captureInside_aRun: "captureInside (aRun g) 1"
  unfolding captureInside_def
proof (intro allI impI)
  fix tx i m m0 c
  assume "search (aRun g) tx i = Some m" and m0: "groupAt m 0 = Some m0" and c: "groupAt m 1 = Some c"
  then have "searchARun (drop i tx) i = Some m" by (auto simp: aRun_def split: if_splits)
  then obtain x r where "groups m = [Some (x # r), Some r]" using searchARun_groups by blast
  with m0 c have "m0 = x # c" by (simp add: groupAt_def)
  then show "0 \<le> indexOf m0 c" by (simp add: indexOf_self Let_def)
qed

section \<open>Match location\<close>

lemma findNodes_append:
  "findNodes n (xs @ ys) = (case findNodes n xs of Some x \<Rightarrow> Some x | None \<Rightarrow> findNodes n ys)"
  by (induction xs) (auto split: option.splits)

lemma genReplacer_ok:
  "replacementOk h repl \<Longrightarrow>
   \<exists>mk st1. genReplacer h repl st = (Inr mk, st1) \<and> reverts st1 = Some [] \<and>
      lastIndex st1 = lastIndex st \<and> (\<exists>extra. forest st1 = forest st @ extra)"
  by (cases repl) (auto simp: genReplacer_def andThen_def createElement_def replacementOk_def)

lemma genReplacer_refused:
  "elementName h t = None \<Longrightarrow>
   genReplacer h (TagName t) st = (Inl InvalidCharacterError, st\<lparr>reverts := Some []\<rparr>)"
  by (simp add: genReplacer_def andThen_def createElement_def)

text \<open>Line 38 makes the replacement function before line 42 locates the matches: a node
  name that the host refuses ends the call there.\<close>

lemma refused_name_throws:
  "getTextAt st node \<noteq> None \<Longrightarrow> elementName h t = None \<Longrightarrow>
   findAndReplaceDOMText h fuel re node (TagName t) cg st
     = Some (Inl InvalidCharacterError, st\<lparr>reverts := Some []\<rparr>)"
  by (auto simp: findAndReplaceDOMText_def genReplacer_refused)

lemma replacementOk_browser_em: "replacementOk browser (TagName ''em'')"
  by (simp add: replacementOk_def browser_def isName_def nameStartChars_def nameChars_def)

text \<open>What match location throws, the entry point throws, before the walk over the tree
  starts: every node of the heap is as it was.\<close>

lemma located_error_stops:
  assumes t: "getTextAt st node = Some txt" and ne: "txt \<noteq> []" and ok: "replacementOk h repl"
    and l: "locate fuel re txt cg (lastIndex st) = Some (Inl e, li)"
  shows "\<exists>st'. findAndReplaceDOMText h fuel re node repl cg st = Some (Inl e, st') \<and>
           reverts st' = Some [] \<and> (\<forall>n x. nodeOf st n = Some x \<longrightarrow> nodeOf st' n = Some x)"
proof -
  from genReplacer_ok [OF ok] obtain mk st1 extra where
    g: "genReplacer h repl st = (Inr mk, st1)" and r: "reverts st1 = Some []"
    and li: "lastIndex st1 = lastIndex st" and f: "forest st1 = forest st @ extra"
    by blast
  have "findAndReplaceDOMText h fuel re node repl cg st = Some (Inl e, st1\<lparr>lastIndex := li\<rparr>)"
    using t ne l g li by (simp add: findAndReplaceDOMText_def)
  moreover have "\<forall>n x. nodeOf st n = Some x \<longrightarrow> nodeOf (st1\<lparr>lastIndex := li\<rparr>) n = Some x"
    by (simp add: nodeOf_def f findNodes_append)
  ultimately show ?thesis using r by simp
qed

lemma getMatchIndexes_empty:
  "groupAt m 0 = Some [] \<Longrightarrow> getMatchIndexes (Some m) cg = Inl ZeroLengthMatch"
  by (simp add: getMatchIndexes_def)

lemma locate_single_throws:
  "\<not> global re \<Longrightarrow> getMatchIndexes (string_match txt re) cg = Inl e \<Longrightarrow>
   locate fuel re txt cg li = Some (Inl e, li)"
  by (simp add: locate_def)





text \<open>
  Claim C5 (zero-length rejection), as amended. A match whose full text \<open>m[0]\<close> is empty
  makes \<open>_getMatchIndexes\<close> throw the zero-length error, whatever the capture group; both
  callers pass it on at once (the single \<open>match\<close>, and any round of the \<open>exec\<close> loop); and
  when match location throws it on the non-empty text of the subtree, for a replacement
  that the host makes an element for, the entry point throws it and every node is as it
  was before the call. For a node name that the host refuses, line 38 has thrown the
  host's \<open>InvalidCharacterError\<close> before any match is located.
\<close>

theorem zero_length_rejected:
  "(groupAt m 0 = Some [] \<longrightarrow>
      getMatchIndexes (Some m) cg = Inl ZeroLengthMatch \<and>
      (\<not> global re \<and> string_match txt re = Some m \<longrightarrow>
         locate fuel re txt cg li = Some (Inl ZeroLengthMatch, li)) \<and>
      (regex_exec re txt li = (Some m, li') \<longrightarrow>
         execLoop (Suc fuel) re txt cg li acc = Some (Inl ZeroLengthMatch, li')))
   \<and> (getTextAt st node = Some txt \<and> txt \<noteq> [] \<and>
       locate fuel re txt cg (lastIndex st) = Some (Inl ZeroLengthMatch, li2) \<and>
       replacementOk h repl \<longrightarrow>
        (\<exists>st'. findAndReplaceDOMText h fuel re node repl cg st = Some (Inl ZeroLengthMatch, st') \<and>
               (\<forall>n x. nodeOf st n = Some x \<longrightarrow> nodeOf st' n = Some x)))
   \<and> (getTextAt st node \<noteq> None \<and> elementName h t = None \<longrightarrow>
        findAndReplaceDOMText h fuel re node (TagName t) cg st
          = Some (Inl InvalidCharacterError, st\<lparr>reverts := Some []\<rparr>))"
proof (intro conjI impI)
  assume "groupAt m 0 = Some []"
  then show "getMatchIndexes (Some m) cg = Inl ZeroLengthMatch" by (rule getMatchIndexes_empty)
next
  assume "groupAt m 0 = Some []" and "\<not> global re \<and> string_match txt re = Some m"
  then show "locate fuel re txt cg li = Some (Inl ZeroLengthMatch, li)"
    by (simp add: locate_single_throws getMatchIndexes_empty)
next
  assume "groupAt m 0 = Some []" and "regex_exec re txt li = (Some m, li')"
  then show "execLoop (Suc fuel) re txt cg li acc = Some (Inl ZeroLengthMatch, li')"
    by (simp add: getMatchIndexes_empty)
next
  assume "getTextAt st node = Some txt \<and> txt \<noteq> [] \<and>
       locate fuel re txt cg (lastIndex st) = Some (Inl ZeroLengthMatch, li2) \<and>
       replacementOk h repl"
  then show "\<exists>st'. findAndReplaceDOMText h fuel re node repl cg st = Some (Inl ZeroLengthMatch, st') \<and>
               (\<forall>n x. nodeOf st n = Some x \<longrightarrow> nodeOf st' n = Some x)"
    using located_error_stops [of st node "txt" h repl fuel re cg ZeroLengthMatch li2] by blast
next
  assume "getTextAt st node \<noteq> None \<and> elementName h t = None"
  then show "findAndReplaceDOMText h fuel re node (TagName t) cg st
          = Some (Inl InvalidCharacterError, st\<lparr>reverts := Some []\<rparr>)"
    by (simp add: refused_name_throws)
qed

text \<open>The witness: \<open>/x*/\<close> on the paragraph \<open>"abc"\<close>, which holds no \<open>x\<close>.\<close>

theorem zero_length_rejected_witness:
  "string_match ''abc'' (starOf False CHR ''x'') = Some \<lparr>index = 0, groups = [Some []]\<rparr>
   \<and> (\<exists>st'. findAndReplaceDOMText browser 0 (starOf False CHR ''x'') 0 (TagName ''em'') None abcDoc
               = Some (Inl ZeroLengthMatch, st') \<and>
            nodeOf st' 0 = Some (Element 0 ''p'' [Text 1 ''abc'']))
   \<and> elementName browser [] = None
   \<and> findAndReplaceDOMText browser 0 (starOf False CHR ''x'') 0 (TagName []) None abcDoc
       = Some (Inl InvalidCharacterError, abcDoc\<lparr>reverts := Some []\<rparr>)"
proof -
  have en: "elementName browser [] = None" by (simp add: browser_def isName_def)
  let ?re = "starOf False CHR ''x''"
  let ?m = "\<lparr>index = 0, groups = [Some []]\<rparr>"
  have gl: "\<not> global ?re" by (simp add: starOf_def)
  have sm: "string_match ''abc'' ?re = Some ?m" by (simp add: string_match_def starOf_def)
  have g0: "groupAt ?m 0 = Some []" by (simp add: groupAt_def)
  have t: "getTextAt abcDoc 0 = Some ''abc''" by (simp add: getTextAt_def nodeOf_def abcDoc_def)
  have n0: "nodeOf abcDoc 0 = Some (Element 0 ''p'' [Text 1 ''abc''])"
    by (simp add: nodeOf_def abcDoc_def)
  note z = zero_length_rejected [of ?m None ?re "''abc''" 0 "lastIndex abcDoc" 0 "[]" abcDoc 0
      "lastIndex abcDoc" browser "TagName ''em''" "[]"]
  from z t en have ic: "findAndReplaceDOMText browser 0 ?re 0 (TagName []) None abcDoc
       = Some (Inl InvalidCharacterError, abcDoc\<lparr>reverts := Some []\<rparr>)" by simp
  from z g0 gl sm have l: "locate 0 ?re ''abc'' None (lastIndex abcDoc)
      = Some (Inl ZeroLengthMatch, lastIndex abcDoc)"
    by blast
  from z t l replacementOk_browser_em obtain st' where
    "findAndReplaceDOMText browser 0 ?re 0 (TagName ''em'') None abcDoc = Some (Inl ZeroLengthMatch, st')"
    "\<forall>n x. nodeOf abcDoc n = Some x \<longrightarrow> nodeOf st' n = Some x"
    by blast
  with n0 sm en ic show ?thesis by blast
qed

text \<open>
  Against C5 as stated: for \<open>/a(x*)/\<close> on \<open>"ab"\<close> with capture group 1 the adjusted match
  text is empty, and what is thrown is the other error; and \<open>/x*/\<close> on a subtree with no
  text at all throws nothing.
\<close>

theorem zero_length_capture_counterexample:
  "string_match ''ab'' (aRun False) = Some \<lparr>index = 0, groups = [Some ''a'', Some []]\<rparr>
   \<and> locate 1 (aRun False) ''ab'' (Some 1) 0 = Some (Inl InvalidCaptureGroup, 0)
   \<and> InvalidCaptureGroup \<noteq> ZeroLengthMatch
   \<and> findAndReplaceDOMText browser 1 (starOf False CHR ''x'') 0 (TagName ''em'') None
        \<lparr>forest = [Element 0 ''p'' []], nextId = 1, reverts = None, lastIndex = 0\<rparr>
      = Some (Inr (), \<lparr>forest = [Element 0 ''p'' [], Element 1 ''em'' []], nextId = 2,
                        reverts = Some [], lastIndex = 0\<rparr>)"
proof (intro conjI)
  show s: "string_match ''ab'' (aRun False) = Some \<lparr>index = 0, groups = [Some ''a'', Some []]\<rparr>"
    by (simp add: string_match_def aRun_def)
  have gl: "\<not> global (aRun False)" by (simp add: aRun_def)
  show "locate 1 (aRun False) ''ab'' (Some 1) 0 = Some (Inl InvalidCaptureGroup, 0)"
    by (simp add: locate_def gl s getMatchIndexes_def groupAt_def)
  show "InvalidCaptureGroup \<noteq> ZeroLengthMatch" by simp
  show "findAndReplaceDOMText browser 1 (starOf False CHR ''x'') 0 (TagName ''em'') None
        \<lparr>forest = [Element 0 ''p'' []], nextId = 1, reverts = None, lastIndex = 0\<rparr>
      = Some (Inr (), \<lparr>forest = [Element 0 ''p'' [], Element 1 ''em'' []], nextId = 2,
                        reverts = Some [], lastIndex = 0\<rparr>)"
    by (simp add: findAndReplaceDOMText_def getTextAt_def nodeOf_def genReplacer_def andThen_def
        createElement_def browser_def isName_def nameStartChars_def nameChars_def asciiLower_def)
qed

text \<open>
  Claim C7 (invalid capture group), as amended. For a match with a non-empty full text
  and \<open>captureGroup = k > 0\<close>, \<open>_getMatchIndexes\<close> throws the capture-group error exactly
  when \<open>m[k]\<close> is \<open>undefined\<close> or the empty string; both callers pass it on at once; and
  when match location throws it, for a replacement that the host makes an element for,
  the entry point throws it and every node is as it was. For a node name that the host
  refuses, line 38 has thrown the host's \<open>InvalidCharacterError\<close> before any match is
  located.
\<close>

theorem invalid_capture_group:
  "(groupAt m 0 = Some m0 \<and> m0 \<noteq> [] \<and> 0 < k \<longrightarrow>
      ((getMatchIndexes (Some m) (Some k) = Inl InvalidCaptureGroup) =
       (groupAt m k = None \<or> groupAt m k = Some [])))
   \<and> (getMatchIndexes (Some m) cg = Inl InvalidCaptureGroup \<longrightarrow>
        (\<not> global re \<and> string_match txt re = Some m \<longrightarrow>
           locate fuel re txt cg li = Some (Inl InvalidCaptureGroup, li)) \<and>
        (regex_exec re txt li = (Some m, li') \<longrightarrow>
           execLoop (Suc fuel) re txt cg li acc = Some (Inl InvalidCaptureGroup, li')))
   \<and> (getTextAt st node = Some txt \<and> txt \<noteq> [] \<and>
       locate fuel re txt cg (lastIndex st) = Some (Inl InvalidCaptureGroup, li2) \<and>
       replacementOk h repl \<longrightarrow>
        (\<exists>st'. findAndReplaceDOMText h fuel re node repl cg st = Some (Inl InvalidCaptureGroup, st') \<and>
               (\<forall>n x. nodeOf st n = Some x \<longrightarrow> nodeOf st' n = Some x)))
   \<and> (getTextAt st node \<noteq> None \<and> elementName h t = None \<longrightarrow>
        findAndReplaceDOMText h fuel re node (TagName t) cg st
          = Some (Inl InvalidCharacterError, st\<lparr>reverts := Some []\<rparr>))"
proof (intro conjI impI)
  assume "groupAt m 0 = Some m0 \<and> m0 \<noteq> [] \<and> 0 < k"
  then show "(getMatchIndexes (Some m) (Some k) = Inl InvalidCaptureGroup) =
       (groupAt m k = None \<or> groupAt m k = Some [])"
    by (auto simp: getMatchIndexes_def Let_def split: option.splits)
next
  assume "getMatchIndexes (Some m) cg = Inl InvalidCaptureGroup"
    and "\<not> global re \<and> string_match txt re = Some m"
  then show "locate fuel re txt cg li = Some (Inl InvalidCaptureGroup, li)"
    by (simp add: locate_single_throws)
next
  assume "getMatchIndexes (Some m) cg = Inl InvalidCaptureGroup"
    and "regex_exec re txt li = (Some m, li')"
  then show "execLoop (Suc fuel) re txt cg li acc = Some (Inl InvalidCaptureGroup, li')"
    by simp
next
  assume "getTextAt st node = Some txt \<and> txt \<noteq> [] \<and>
       locate fuel re txt cg (lastIndex st) = Some (Inl InvalidCaptureGroup, li2) \<and>
       replacementOk h repl"
  then show "\<exists>st'. findAndReplaceDOMText h fuel re node repl cg st = Some (Inl InvalidCaptureGroup, st') \<and>
               (\<forall>n x. nodeOf st n = Some x \<longrightarrow> nodeOf st' n = Some x)"
    using located_error_stops [of st node "txt" h repl fuel re cg InvalidCaptureGroup li2] by blast
next
  assume "getTextAt st node \<noteq> None \<and> elementName h t = None"
  then show "findAndReplaceDOMText h fuel re node (TagName t) cg st
          = Some (Inl InvalidCharacterError, st\<lparr>reverts := Some []\<rparr>)"
    by (simp add: refused_name_throws)
qed

text \<open>The witness: \<open>/a(x*)/\<close> has no group 2; the paragraph \<open>"abc"\<close> with
  \<open>captureGroup = 2\<close>.\<close>

theorem invalid_capture_group_witness:
  "string_match ''abc'' (aRun False) = Some \<lparr>index = 0, groups = [Some ''a'', Some []]\<rparr>
   \<and> groupAt \<lparr>index = 0, groups = [Some ''a'', Some []]\<rparr> 2 = None
   \<and> getMatchIndexes (Some \<lparr>index = 0, groups = [Some ''a'', Some []]\<rparr>) (Some 2)
       = Inl InvalidCaptureGroup
   \<and> (\<exists>st'. findAndReplaceDOMText browser 0 (aRun False) 0 (TagName ''em'') (Some 2) abcDoc
               = Some (Inl InvalidCaptureGroup, st') \<and>
            nodeOf st' 0 = Some (Element 0 ''p'' [Text 1 ''abc'']))
   \<and> elementName browser ''a b'' = None
   \<and> findAndReplaceDOMText browser 0 (aRun False) 0 (TagName ''a b'') (Some 2) abcDoc
       = Some (Inl InvalidCharacterError, abcDoc\<lparr>reverts := Some []\<rparr>)"
proof -
  have en: "elementName browser ''a b'' = None"
    by (simp add: browser_def isName_def nameStartChars_def nameChars_def)
  let ?re = "aRun False"
  let ?m = "\<lparr>index = 0, groups = [Some ''a'', Some []]\<rparr>"
  have gl: "\<not> global ?re" by (simp add: aRun_def)
  have sm: "string_match ''abc'' ?re = Some ?m" by (simp add: string_match_def aRun_def)
  have g0: "groupAt ?m 0 = Some ''a'' \<and> ''a'' \<noteq> [] \<and> (0::nat) < 2" by (simp add: groupAt_def)
  have g2: "groupAt ?m 2 = None" by (simp add: groupAt_def)
  have t: "getTextAt abcDoc 0 = Some ''abc''" by (simp add: getTextAt_def nodeOf_def abcDoc_def)
  have n0: "nodeOf abcDoc 0 = Some (Element 0 ''p'' [Text 1 ''abc''])"
    by (simp add: nodeOf_def abcDoc_def)
  note z = invalid_capture_group [of ?m "''a''" 2 "Some 2" ?re "''abc''" 0 "lastIndex abcDoc" 0 "[]"
      abcDoc 0 "lastIndex abcDoc" browser "TagName ''em''" "''a b''"]
  from z t en have ic: "findAndReplaceDOMText browser 0 ?re 0 (TagName ''a b'') (Some 2) abcDoc
       = Some (Inl InvalidCharacterError, abcDoc\<lparr>reverts := Some []\<rparr>)" by simp
  from z g0 g2 have e: "getMatchIndexes (Some ?m) (Some 2) = Inl InvalidCaptureGroup" by blast
  from z e gl sm have l: "locate 0 ?re ''abc'' (Some 2) (lastIndex abcDoc)
      = Some (Inl InvalidCaptureGroup, lastIndex abcDoc)"
    by blast
  from z t l replacementOk_browser_em obtain st' where
    "findAndReplaceDOMText browser 0 ?re 0 (TagName ''em'') (Some 2) abcDoc = Some (Inl InvalidCaptureGroup, st')"
    "\<forall>n x. nodeOf abcDoc n = Some x \<longrightarrow> nodeOf st' n = Some x"
    by blast
  with n0 sm g2 e en ic show ?thesis by blast
qed

text \<open>
  Against C7 as stated: the match of \<open>/a(x*)/\<close> in \<open>"banana"\<close> has a group 1 that took
  part (it is the empty string) and the capture-group error is thrown; the match of
  \<open>/(x)?/\<close> in \<open>"abc"\<close> has a group 1 that did not take part and the error thrown is the
  zero-length one.
\<close>

theorem invalid_capture_group_counterexample:
  "string_match ''banana'' (aRun False) = Some \<lparr>index = 1, groups = [Some ''a'', Some []]\<rparr>
   \<and> groupAt \<lparr>index = 1, groups = [Some ''a'', Some []]\<rparr> 1 = Some []
   \<and> getMatchIndexes (Some \<lparr>index = 1, groups = [Some ''a'', Some []]\<rparr>) (Some 1)
       = Inl InvalidCaptureGroup
   \<and> groupAt \<lparr>index = 0, groups = [Some [], None]\<rparr> 1 = None
   \<and> getMatchIndexes (Some \<lparr>index = 0, groups = [Some [], None]\<rparr>) (Some 1) = Inl ZeroLengthMatch"
  by (simp add: string_match_def aRun_def getMatchIndexes_def groupAt_def)

section \<open>Order of the descriptors\<close>

lemma ordered_snoc:
  "ordered acc \<Longrightarrow> (\<forall>a\<in>set acc. mend a \<le> mstart d) \<Longrightarrow> ordered (acc @ [d])"
  by (induction acc rule: ordered.induct) auto

lemma getMatchIndexes_bounds:
  assumes g: "getMatchIndexes (Some m) cg = Inr d"
    and m0: "groupAt m 0 = Some m0"
    and ci: "\<forall>k c. cg = Some k \<and> 0 < k \<and> groupAt m k = Some c \<longrightarrow> 0 \<le> indexOf m0 c"
  shows "int (index m) \<le> mstart d \<and> mstart d < mend d \<and> mend d \<le> int (index m + length m0)"
proof (cases "\<exists>k. cg = Some k \<and> 0 < k")
  case False
  then have "(case cg of None \<Rightarrow> 0 | Some k \<Rightarrow> k) = 0" by (auto split: option.splits)
  with g m0 show ?thesis
    by (auto simp: getMatchIndexes_def mstart_def mend_def split: if_splits)
next
  case True
  then obtain k where k: "cg = Some k" "0 < k" by blast
  with g m0 obtain c where c: "groupAt m k = Some c" "c \<noteq> []"
    and d: "d = (int (index m) + indexOf m0 c, int (index m) + indexOf m0 c + int (length c), [c])"
    by (auto simp: getMatchIndexes_def Let_def split: if_splits option.splits)
  from ci k c have i: "0 \<le> indexOf m0 c" by blast
  from indexOf_found [OF i] have "nat (indexOf m0 c) + length c \<le> length m0" by simp
  with i have "indexOf m0 c + int (length c) \<le> int (length m0)" by linarith
  with i c show ?thesis by (simp add: d mstart_def mend_def)
qed

lemma execLoop_ordered:
  assumes ok: "engine_ok re" and gl: "global re"
    and ci: "\<forall>k. cg = Some k \<and> 0 < k \<longrightarrow> captureInside re k"
  shows "execLoop fuel re txt cg li acc = Some (Inr ms, li') \<Longrightarrow> ordered acc \<Longrightarrow>
         (\<forall>a\<in>set acc. mend a \<le> int li) \<Longrightarrow> ordered ms"
proof (induction fuel arbitrary: li acc)
  case 0
  then show ?case by simp
next
  case (Suc fuel)
  show ?case
  proof (cases "regex_exec re txt li")
    case (Pair mo li1)
    show ?thesis
    proof (cases mo)
      case None
      with Pair Suc.prems show ?thesis by simp
    next
      case (Some m)
      from Pair Some gl have s: "search re txt li = Some m"
        and l1: "li1 = index m + length (case groupAt m 0 of None \<Rightarrow> [] | Some s \<Rightarrow> s)"
        by (auto simp: regex_exec_def split: if_splits option.splits)
      from ok s obtain m0 where m0: "groupAt m 0 = Some m0" and ge: "li \<le> index m"
        unfolding engine_ok_def by blast
      from l1 m0 have l1': "li1 = index m + length m0" by simp
      from Pair Some Suc.prems(1) obtain d where d: "getMatchIndexes (Some m) cg = Inr d"
        and r: "execLoop fuel re txt cg li1 (acc @ [d]) = Some (Inr ms, li')"
        by (auto split: sum.splits)
      have "\<forall>k c. cg = Some k \<and> 0 < k \<and> groupAt m k = Some c \<longrightarrow> 0 \<le> indexOf m0 c"
        using ci s m0 unfolding captureInside_def by blast
      from getMatchIndexes_bounds [OF d m0 this]
      have b: "int (index m) \<le> mstart d" "mend d \<le> int li1" by (simp_all add: l1')
      have "\<forall>a\<in>set acc. mend a \<le> mstart d" using Suc.prems(3) ge b(1) by fastforce
      then have o: "ordered (acc @ [d])" using Suc.prems(2) by (simp add: ordered_snoc)
      have "\<forall>a\<in>set (acc @ [d]). mend a \<le> int li1"
        using Suc.prems(3) ge b l1' by fastforce
      from Suc.IH [OF r o this] show ?thesis .
    qed
  qed
qed

text \<open>
  Claim C9 (non-overlap and order), as amended. For a global pattern of a host engine,
  with no capture group or with one whose text is found inside the full match, the
  descriptors that match location yields are in ascending order and do not overlap.
\<close>

theorem descriptors_ordered:
  "engine_ok re \<and> global re \<and> (\<forall>k. cg = Some k \<and> 0 < k \<longrightarrow> captureInside re k) \<and>
   locate fuel re txt cg li = Some (Inr ms, li') \<longrightarrow> ordered ms"
proof
  assume a: "engine_ok re \<and> global re \<and> (\<forall>k. cg = Some k \<and> 0 < k \<longrightarrow> captureInside re k) \<and>
   locate fuel re txt cg li = Some (Inr ms, li')"
  then have "execLoop fuel re txt cg li [] = Some (Inr ms, li')" by (auto simp: locate_def)
  then show "ordered ms" using a execLoop_ordered [of re cg fuel "txt" li "[]" ms li'] by simp
qed

text \<open>The witness: \<open>/a(x*)/g\<close> with group 1 on \<open>"axax"\<close>.\<close>

theorem descriptors_ordered_witness:
  "locate 3 (aRun True) ''axax'' (Some 1) 0 = Some (Inr [(1, 2, [''x'']), (3, 4, [''x''])], 0)
   \<and> ordered [(1, 2, [''x'']), (3, 4, [''x''])]"
proof -
  have l: "locate 3 (aRun True) ''axax'' (Some 1) 0 = Some (Inr [(1, 2, [''x'']), (3, 4, [''x''])], 0)"
    by (simp add: locate_def aRun_def regex_exec_def getMatchIndexes_def groupAt_def numeral_3_eq_3)
  have g: "global (aRun True)" by (simp add: aRun_def)
  have c: "\<forall>k. Some (1::nat) = Some k \<and> 0 < k \<longrightarrow> captureInside (aRun True) k"
    using captureInside_aRun by simp
  from descriptors_ordered [of "aRun True" "Some 1" 3 "''axax''" 0 "[(1, 2, [''x'']), (3, 4, [''x''])]" 0]
    engine_ok_aRun g c l
  show ?thesis by blast
qed

text \<open>
  Against C9 as stated: \<open>/a(?=(..))/g\<close> with group 1 on \<open>"aaaa"\<close>. The captured text
  \<open>"aa"\<close> is not inside \<open>m[0] = "a"\<close>, \<open>indexOf\<close> gives \<open>-1\<close>, and the two descriptors are
  \<open>[-1, 1]\<close> and \<open>[0, 2]\<close>.
\<close>

theorem descriptors_overlap_counterexample:
  "global (aLook True)
   \<and> locate 3 (aLook True) ''aaaa'' (Some 1) 0
       = Some (Inr [(- 1, 1, [''aa'']), (0, 2, [''aa''])], 0)
   \<and> \<not> ordered [(- 1, 1, [''aa'']), (0, 2, [''aa''])]"
  by (simp add: locate_def aLook_def regex_exec_def getMatchIndexes_def groupAt_def
      mstart_def mend_def numeral_3_eq_3)

text \<open>
  Claim C6 (single-shot mode), at the input where the code leaves it. A pattern that is
  not global and matches nothing in the text: \<open>String.match\<close> gives \<open>null\<close>,
  \<open>_getMatchIndexes\<close> reads \<open>m[0]\<close> off it, and the call ends in a \<open>TypeError\<close>. The same
  pattern with the global flag returns without a word.
\<close>

theorem single_shot_no_match_throws:
  "string_match ''abc'' (literal False ''x'') = None
   \<and> findAndReplaceDOMText browser fuel (literal False ''x'') 0 (TagName ''em'') None abcDoc
      = Some (Inl TypeError,
          \<lparr>forest = [Element 0 ''p'' [Text 1 ''abc''], Element 2 ''em'' []], nextId = 3,
            reverts = Some [], lastIndex = 0\<rparr>)
   \<and> findAndReplaceDOMText browser (Suc fuel) (literal True ''x'') 0 (TagName ''em'') None abcDoc
      = Some (Inr (),
          \<lparr>forest = [Element 0 ''p'' [Text 1 ''abc''], Element 2 ''em'' []], nextId = 3,
            reverts = Some [], lastIndex = 0\<rparr>)"
  by (simp add: findAndReplaceDOMText_def abcDoc_def getTextAt_def nodeOf_def
      genReplacer_def andThen_def createElement_def locate_def literal_def string_match_def
      getMatchIndexes_def regex_exec_def browser_def isName_def nameStartChars_def nameChars_def
      asciiLower_def)

section \<open>The revert list\<close>

lemma andThen_pres:
  assumes "P (snd r)" and "\<And>a s. P s \<Longrightarrow> P (snd (f a s))"
  shows "P (snd (andThen r f))"
  using assms by (cases r) (auto simp: andThen_def split: sum.splits)

lemma if_pres:
  "(c \<Longrightarrow> P (snd a)) \<Longrightarrow> (\<not> c \<Longrightarrow> P (snd b)) \<Longrightarrow> P (snd (if c then a else b))"
  by simp

lemma reverts_createTextNode [simp]: "reverts (snd (createTextNode d st)) = reverts st"
  by (simp add: createTextNode_def)

lemma reverts_createElement [simp]: "reverts (snd (createElement h t st)) = reverts st"
  by (simp add: createElement_def split: option.splits)

lemma reverts_insertBefore [simp]: "reverts (snd (insertBefore p n r st)) = reverts st"
  by (simp add: insertBefore_def split: option.splits dnode.splits)

lemma reverts_removeChild [simp]: "reverts (snd (removeChild p c st)) = reverts st"
  by (simp add: removeChild_def split: option.splits)

lemma reverts_normalize [simp]: "reverts (snd (normalize p st)) = reverts st"
  by (simp add: normalize_def split: option.splits)

lemma reverts_dataOf [simp]: "reverts (snd (dataOf n st)) = reverts st"
  by (simp add: dataOf_def split: option.splits)

lemma reverts_setInnerHTML [simp]: "reverts (snd (setInnerHTML h c s st)) = reverts st"
  by (simp add: setInnerHTML_def split: option.splits prod.splits dnode.splits)

lemma reverts_appendChild [simp]: "reverts (snd (appendChild p n st)) = reverts st"
  by (simp add: appendChild_def)

lemma hasReverts_prims [simp]:
  "hasReverts (snd (createTextNode d st)) = hasReverts st"
  "hasReverts (snd (createElement h t st)) = hasReverts st"
  "hasReverts (snd (insertBefore p n r st)) = hasReverts st"
  "hasReverts (snd (removeChild p c st)) = hasReverts st"
  "hasReverts (snd (normalize p st)) = hasReverts st"
  "hasReverts (snd (dataOf k st)) = hasReverts st"
  "hasReverts (snd (setInnerHTML h cl k st)) = hasReverts st"
  "hasReverts (snd (appendChild p n st)) = hasReverts st"
  by (simp_all add: hasReverts_def)

lemma hasReverts_replaceChild [simp]: "hasReverts st \<Longrightarrow> hasReverts (snd (replaceChild p n c st))"
  unfolding replaceChild_def
  by (cases c) (simp, simp, intro andThen_pres [where P = hasReverts], simp_all)

lemma hasReverts_makeReplacementNode [simp]:
  "hasReverts st \<Longrightarrow> hasReverts (snd (makeReplacementNode h mk fill i st))"
proof (cases mk)
  case (FromStencil n)
  assume "hasReverts st"
  with FromStencil show ?thesis unfolding makeReplacementNode_def Let_def
    by (simp, intro andThen_pres [where P = hasReverts] if_pres [where P = hasReverts]) simp_all
next
  case (FromFunction f)
  assume "hasReverts st"
  with FromFunction show ?thesis unfolding makeReplacementNode_def
    by (simp add: hasReverts_def split: prod.splits)
qed

lemma hasReverts_pushRevert [simp]: "hasReverts st \<Longrightarrow> hasReverts (snd (pushRevert r st))"
  by (auto simp: pushRevert_def hasReverts_def)

lemma hasReverts_replaceInner [simp]:
  "hasReverts st \<Longrightarrow> hasReverts (snd (replaceInner h mk i ns els st))"
proof (induction ns arbitrary: els st)
  case Nil
  then show ?case by simp
next
  case (Cons n ns)
  from Cons.prems show ?case
    by (simp, intro andThen_pres [where P = hasReverts]) (simp_all add: Cons.IH)
qed

lemma hasReverts_replaceSingle:
  "hasReverts st \<Longrightarrow> hasReverts (snd (replaceSingle h mk r st))"
  unfolding replaceSingle_def Let_def
  by (intro andThen_pres [where P = hasReverts] if_pres [where P = hasReverts]) simp_all

lemma hasReverts_replaceSpan:
  "hasReverts st \<Longrightarrow> hasReverts (snd (replaceSpan h mk r st))"
  unfolding replaceSpan_def Let_def
  by (intro andThen_pres [where P = hasReverts] if_pres [where P = hasReverts]) simp_all

lemma hasReverts_replace:
  "hasReverts st \<Longrightarrow> hasReverts (snd (replace h mk r st))"
  by (simp add: replace_def hasReverts_replaceSingle hasReverts_replaceSpan)

lemma reverts_replace:
  "reverts st \<noteq> None \<Longrightarrow> reverts (snd (replace h mk r st)) \<noteq> None"
  using hasReverts_replace by (simp add: hasReverts_def)

lemma reverts_stepLoop:
  "stepLoop h fuel node mk w st = Some (r, st') \<Longrightarrow> reverts st \<noteq> None \<Longrightarrow> reverts st' \<noteq> None"
proof (induction fuel arbitrary: w st)
  case 0
  then show ?case by simp
next
  case (Suc fuel)
  show ?case
  proof (cases "visit st w")
    case (Inl e)
    with Suc.prems show ?thesis by simp
  next
    case (Inr w1)
    show ?thesis
    proof (cases "\<exists>s e. startNode w1 = Some s \<and> endNode w1 = Some e")
      case True
      then obtain s e where se: "startNode w1 = Some s" "endNode w1 = Some e" by blast
      obtain rr st1 where rp: "replace h mk (rangeOf w1 s e) st = (rr, st1)"
        by (cases "replace h mk (rangeOf w1 s e) st")
      from reverts_replace [OF Suc.prems(2), of h mk "rangeOf w1 s e"] rp
      have r1: "reverts st1 \<noteq> None" by simp
      from Suc.prems(1) Inr se rp r1 show ?thesis
        by (auto split: sum.splits if_splits option.splits dest: Suc.IH)
    next
      case False
      with Suc.prems Inr show ?thesis
        by (auto split: sum.splits if_splits option.splits dest: Suc.IH)
    qed
  qed
qed

lemma genReplacer_reverts: "reverts (snd (genReplacer h repl st)) = Some []"
  by (cases repl)
    (simp_all add: genReplacer_def Let_def andThen_def createElement_def split: option.splits)

lemma reverts_findAndReplaceDOMText:
  assumes "findAndReplaceDOMText h fuel re node repl cg st = Some (r, st')"
    and "getTextAt st node \<noteq> None"
  shows "reverts st' \<noteq> None"
proof -
  from assms(2) obtain tx where t: "getTextAt st node = Some tx" by blast
  obtain res st1 where g: "genReplacer h repl st = (res, st1)" by (cases "genReplacer h repl st")
  from genReplacer_reverts [of h repl st] g have r1: "reverts st1 = Some []" by simp
  show ?thesis
  proof (cases res)
    case (Inl e)
    with assms(1) t g r1 show ?thesis by (auto simp: findAndReplaceDOMText_def)
  next
    case (Inr mk)
    show ?thesis
    proof (cases "tx = []")
      case True
      with assms(1) t g r1 Inr show ?thesis by (auto simp: findAndReplaceDOMText_def)
    next
      case False
      with assms(1) t g r1 Inr show ?thesis
        by (auto simp: findAndReplaceDOMText_def stepThroughMatches_def
            split: option.splits sum.splits prod.splits if_splits dest!: reverts_stepLoop)
    qed
  qed
qed

lemma revert_undefined: "reverts st = None \<Longrightarrow> revert st = (Inl TypeError, st)"
  by (simp add: revert_def)

lemma revert_empty: "reverts st = Some [] \<Longrightarrow> revert st = (Inr (), st)"
  by (simp add: revert_def andThen_def)

lemma empty_text_returns:
  assumes "getTextAt st node = Some []" and ok: "replacementOk h repl"
  shows "\<exists>st'. findAndReplaceDOMText h fuel re node repl cg st = Some (Inr (), st') \<and>
           reverts st' = Some []"
proof -
  from genReplacer_ok [OF ok] obtain mk st1 where
    g: "genReplacer h repl st = (Inr mk, st1)" and r1: "reverts st1 = Some []" by blast
  with assms show ?thesis by (simp add: findAndReplaceDOMText_def)
qed

lemma no_descriptor_returns:
  assumes t: "getTextAt st node = Some txt" and ok: "replacementOk h repl"
    and n: "txt = [] \<or> locate fuel re txt cg (lastIndex st) = Some (Inr [], li)"
  shows "\<exists>st1. findAndReplaceDOMText h fuel re node repl cg st = Some (Inr (), st1) \<and>
           reverts st1 = Some [] \<and> (\<forall>n x. nodeOf st n = Some x \<longrightarrow> nodeOf st1 n = Some x)"
proof -
  from genReplacer_ok [OF ok] obtain mk st1 extra where
    g: "genReplacer h repl st = (Inr mk, st1)" and r1: "reverts st1 = Some []"
    and l1: "lastIndex st1 = lastIndex st" and f: "forest st1 = forest st @ extra" by blast
  have k: "\<forall>n x. nodeOf st n = Some x \<longrightarrow> nodeOf (st1\<lparr>lastIndex := y\<rparr>) n = Some x" for y
    by (simp add: nodeOf_def f findNodes_append)
  have k1: "\<forall>n x. nodeOf st n = Some x \<longrightarrow> nodeOf st1 n = Some x"
    by (simp add: nodeOf_def f findNodes_append)
  show ?thesis
  proof (cases "txt = []")
    case True
    with t g r1 k1 show ?thesis by (simp add: findAndReplaceDOMText_def)
  next
    case False
    with n have "locate fuel re txt cg (lastIndex st) = Some (Inr [], li)" by simp
    with False t g l1 have "findAndReplaceDOMText h fuel re node repl cg st
        = Some (Inr (), st1\<lparr>lastIndex := li\<rparr>)" by (simp add: findAndReplaceDOMText_def)
    with r1 k [of li] show ?thesis by simp
  qed
qed

text \<open>
  Claim C10 (revert before the first replace). While \<open>reverts\<close> is \<open>undefined\<close>, \<open>revert\<close>
  throws a \<open>TypeError\<close> and changes nothing. Every call of \<open>findAndReplaceDOMText\<close> on a
  node leaves \<open>reverts\<close> holding an array, however the call ends. A call that makes no
  replacement, because the subtree has no text or because match location finds nothing,
  returns (when the host makes an element for the node name) with every node as it was
  and with the empty array, and \<open>revert\<close> then returns with the state as it was; so does
  \<open>revert\<close> on any state whose array is empty.
\<close>

theorem revert_before_first_replace:
  "(reverts st = None \<longrightarrow> revert st = (Inl TypeError, st))
   \<and> (getTextAt st node \<noteq> None \<and> findAndReplaceDOMText h fuel re node repl cg st = Some (r, st')
        \<longrightarrow> reverts st' \<noteq> None)
   \<and> (getTextAt st node = Some txt \<and> replacementOk h repl \<and>
       (txt = [] \<or> locate fuel re txt cg (lastIndex st) = Some (Inr [], li)) \<longrightarrow>
        (\<exists>st1. findAndReplaceDOMText h fuel re node repl cg st = Some (Inr (), st1) \<and>
               (\<forall>n x. nodeOf st n = Some x \<longrightarrow> nodeOf st1 n = Some x) \<and>
               reverts st1 = Some [] \<and> revert st1 = (Inr (), st1)))
   \<and> (reverts st' = Some [] \<longrightarrow> revert st' = (Inr (), st'))"
proof (intro conjI impI)
  assume "reverts st = None"
  then show "revert st = (Inl TypeError, st)" by (rule revert_undefined)
next
  assume "getTextAt st node \<noteq> None \<and> findAndReplaceDOMText h fuel re node repl cg st = Some (r, st')"
  then show "reverts st' \<noteq> None" using reverts_findAndReplaceDOMText by blast
next
  assume a: "getTextAt st node = Some txt \<and> replacementOk h repl \<and>
       (txt = [] \<or> locate fuel re txt cg (lastIndex st) = Some (Inr [], li))"
  then have t: "getTextAt st node = Some txt" and ok: "replacementOk h repl"
    and n: "txt = [] \<or> locate fuel re txt cg (lastIndex st) = Some (Inr [], li)" by simp_all
  from no_descriptor_returns [OF t ok n] obtain st1 where
    "findAndReplaceDOMText h fuel re node repl cg st = Some (Inr (), st1)" "reverts st1 = Some []"
    "\<forall>n x. nodeOf st n = Some x \<longrightarrow> nodeOf st1 n = Some x"
    by blast
  then show "\<exists>st1. findAndReplaceDOMText h fuel re node repl cg st = Some (Inr (), st1) \<and>
               (\<forall>n x. nodeOf st n = Some x \<longrightarrow> nodeOf st1 n = Some x) \<and>
               reverts st1 = Some [] \<and> revert st1 = (Inr (), st1)"
    using revert_empty by blast
next
  assume "reverts st' = Some []"
  then show "revert st' = (Inr (), st')" by (rule revert_empty)
qed

text \<open>The witness: the paragraph \<open>"This is a test"\<close> before and after a call with
  \<open>/test/\<close>, and the paragraph \<open>"abc"\<close>, in which \<open>/x/g\<close> finds nothing.\<close>

theorem revert_before_first_replace_witness:
  "reverts testDoc = None \<and> revert testDoc = (Inl TypeError, testDoc)
   \<and> findAndReplaceDOMText browser 2 (literal False ''test'') 0 (TagName ''em'') None testDoc
       = Some (Inr (), testDocReplaced)
   \<and> reverts testDocReplaced \<noteq> None
   \<and> locate 1 (literal True ''x'') ''abc'' None (lastIndex abcDoc) = Some (Inr [], 0)
   \<and> (\<exists>st1. findAndReplaceDOMText browser 1 (literal True ''x'') 0 (TagName ''em'') None abcDoc
              = Some (Inr (), st1) \<and> nodeOf st1 0 = Some (Element 0 ''p'' [Text 1 ''abc'']) \<and>
              reverts st1 = Some [] \<and> revert st1 = (Inr (), st1))
   \<and> revert testDocReverted = (Inr (), testDocReverted)"
proof -
  have a: "reverts testDoc = None" by (simp add: testDoc_def)
  have b: "findAndReplaceDOMText browser 2 (literal False ''test'') 0 (TagName ''em'') None testDoc
       = Some (Inr (), testDocReplaced)" by code_simp
  have c: "getTextAt testDoc 0 \<noteq> None" by (simp add: getTextAt_def nodeOf_def testDoc_def)
  have d: "getTextAt abcDoc 0 = Some ''abc''" by (simp add: getTextAt_def nodeOf_def abcDoc_def)
  have l: "locate 1 (literal True ''x'') ''abc'' None (lastIndex abcDoc) = Some (Inr [], 0)"
    by (simp add: locate_def literal_def regex_exec_def abcDoc_def)
  have n0: "nodeOf abcDoc 0 = Some (Element 0 ''p'' [Text 1 ''abc''])"
    by (simp add: nodeOf_def abcDoc_def)
  have e: "reverts testDocReverted = Some []" by (simp add: testDocReverted_def)
  note t1 = revert_before_first_replace [of testDoc 0 browser 2 "literal False ''test''"
      "TagName ''em''" None "Inr ()" testDocReplaced "''This is a test''" 0]
  note t2 = revert_before_first_replace [of abcDoc 0 browser 1 "literal True ''x''"
      "TagName ''em''" None "Inr ()" testDocReverted "''abc''" 0]
  from t1 a have "revert testDoc = (Inl TypeError, testDoc)" by blast
  moreover from t1 b c have "reverts testDocReplaced \<noteq> None" by blast
  moreover from t2 d l replacementOk_browser_em obtain st1 where
    "findAndReplaceDOMText browser 1 (literal True ''x'') 0 (TagName ''em'') None abcDoc = Some (Inr (), st1)"
    "\<forall>n x. nodeOf abcDoc n = Some x \<longrightarrow> nodeOf st1 n = Some x"
    "reverts st1 = Some []" "revert st1 = (Inr (), st1)" by blast
  with n0 have "\<exists>st1. findAndReplaceDOMText browser 1 (literal True ''x'') 0 (TagName ''em'') None abcDoc
              = Some (Inr (), st1) \<and> nodeOf st1 0 = Some (Element 0 ''p'' [Text 1 ''abc'']) \<and>
              reverts st1 = Some [] \<and> revert st1 = (Inr (), st1)" by blast
  moreover from t2 e have "revert testDocReverted = (Inr (), testDocReverted)" by blast
  ultimately show ?thesis using a b l by blast
qed
section \<open>The walk and the scenarios\<close>

text \<open>
  Claim C4 (single-node scenario). The paragraph holding the one Text node
  \<open>"This is a test"\<close>, the pattern \<open>/test/\<close> and the node name \<open>em\<close>: after the call the
  paragraph holds the Text node \<open>"This is a "\<close> and an \<open>em\<close> with the Text node \<open>"test"\<close>,
  and nothing after it; after \<open>revert\<close> it holds the one Text node \<open>"This is a test"\<close>.
  Two rounds of the walk suffice.
\<close>

theorem single_node_scenario:
  "findAndReplaceDOMText browser (Suc (Suc n)) (literal False ''test'') 0 (TagName ''em'') None testDoc
     = Some (Inr (), testDocReplaced)
   \<and> nodeOf testDoc 0 = Some (Element 0 ''p'' [Text 1 ''This is a test''])
   \<and> nodeOf testDocReplaced 0
       = Some (Element 0 ''p'' [Text 3 ''This is a '', Element 5 ''em'' [Text 6 ''test'']])
   \<and> revert testDocReplaced = (Inr (), testDocReverted)
   \<and> nodeOf testDocReverted 0 = Some (Element 0 ''p'' [Text 3 ''This is a test''])"
proof (intro conjI)
  show "findAndReplaceDOMText browser (Suc (Suc n)) (literal False ''test'') 0 (TagName ''em'') None testDoc
     = Some (Inr (), testDocReplaced)"
    by (simp add: findAndReplaceDOMText_def testDoc_def testDocReplaced_def getTextAt_def nodeOf_def
      genReplacer_def andThen_def createElement_def locate_def literal_def string_match_def
      getMatchIndexes_def groupAt_def stepThroughMatches_def shift_def visit_def visitText_def
      firstChild_def nextSibling_def mend_def mstart_def mtext_def replace_def rangeOf_def
      replaceSingle_def dataOf_def nodeData_def createTextNode_def insertBefore_def parentNode_def
      makeReplacementNode_def setInnerHTML_def appendChild_def nodeLength_def substring_def
      substringFrom_def clampIndex_def match0_def removeChild_def pushRevert_def afterReplace_def
      Let_def browser_def isName_def nameStartChars_def nameChars_def asciiLower_def tableParts_def)
  show "nodeOf testDoc 0 = Some (Element 0 ''p'' [Text 1 ''This is a test''])" by code_simp
  show "nodeOf testDocReplaced 0
       = Some (Element 0 ''p'' [Text 3 ''This is a '', Element 5 ''em'' [Text 6 ''test'']])"
    by code_simp
  show "revert testDocReplaced = (Inr (), testDocReverted)" by code_simp
  show "nodeOf testDocReverted 0 = Some (Element 0 ''p'' [Text 3 ''This is a test''])" by code_simp
qed

text \<open>
  Claim C1 (round trip), at the input where the code leaves it. The paragraph with the
  Text children \<open>"a"\<close>, \<open>""\<close> and \<open>"b"\<close>, the pattern \<open>/ab/\<close> and the node name \<open>em\<close>. The
  call replaces the empty Text node in the middle by an \<open>em\<close> without a child. In \<open>revert\<close>
  the closure hands that element's \<open>firstChild\<close>, which is \<open>null\<close>, to \<open>insertBefore\<close>: a
  \<open>TypeError\<close>. Two of the three replacement elements stay in the paragraph, and
  \<open>reverts\<close> is not emptied.
\<close>

theorem revert_stops_at_empty_inner_node:
  "findAndReplaceDOMText browser 4 (literal False ''ab'') 0 (TagName ''em'') None gapDoc
     = Some (Inr (), gapDocReplaced)
   \<and> getTextAt gapDoc 0 = Some ''ab'' \<and> getTextAt gapDocReplaced 0 = Some ''ab''
   \<and> revert gapDocReplaced = (Inl TypeError, gapDocStuck)
   \<and> reverts gapDocStuck \<noteq> Some []
   \<and> nodeOf gapDocStuck 0 =
       Some (Element 0 ''p'' [Text 9 ''a'', Element 11 ''em'' [], Element 13 ''em'' [Text 14 ''b'']])"
  by code_simp


section \<open>The document order of a tree\<close>

text \<open>
  Facts about \<open>flat\<close>, the list of a tree's nodes in document order: what looking up,
  taking out and putting in a node do to it, when the identities are distinct.
\<close>

lemma map_fst_flat: "map fst (flat t) = nodeIds t" "map fst (flats ts) = nodesIds ts"
  by (induction t and ts rule: flat_flats.induct) auto

lemma txtOf_simps [simp]:
  "txtOf [] = []" "txtOf ((i, Some d) # xs) = d @ txtOf xs" "txtOf ((i, None) # xs) = txtOf xs"
  "txtOf (xs @ ys) = txtOf xs @ txtOf ys"
  by (simp_all add: txtOf_def)


lemma nodeId_in_ids [simp]: "nodeId t \<in> set (nodeIds t)"
  by (cases t) auto

lemma flat_nonempty [simp]: "flat t \<noteq> []"
  by (cases t) auto

lemma hd_flat: "fst (hd (flat t)) = nodeId t"
  by (cases t) auto

lemma findNode_id:
  "findNode n t = Some x \<Longrightarrow> nodeId x = n"
  "findNodes n ts = Some x \<Longrightarrow> nodeId x = n"
  by (induction n t and n ts rule: findNode_findNodes.induct) (auto split: if_splits option.splits)

lemma findNode_None_iff:
  "findNode n t = None \<longleftrightarrow> n \<notin> set (nodeIds t)"
  "findNodes n ts = None \<longleftrightarrow> n \<notin> set (nodesIds ts)"
  by (induction n t and n ts rule: findNode_findNodes.induct) (auto split: if_splits option.splits)


lemma findNode_segment:
  "findNode n t = Some x \<Longrightarrow> \<exists>A B. flat t = A @ flat x @ B \<and> n \<notin> fst ` set A"
  "findNodes n ts = Some x \<Longrightarrow> \<exists>A B. flats ts = A @ flat x @ B \<and> n \<notin> fst ` set A"
proof (induction n t and n ts rule: findNode_findNodes.induct)
  case (1 n i d)
  then have "flat (Text i d) = [] @ flat x @ [] \<and> n \<notin> fst ` set []" by (auto split: if_splits)
  then show ?case by blast
next
  case (2 n i t cs)
  show ?case
  proof (cases "i = n")
    case True
    with 2 have "flat (Element i t cs) = [] @ flat x @ [] \<and> n \<notin> fst ` set []" by auto
    then show ?thesis by blast
  next
    case False
    with 2 obtain A B where "flats cs = A @ flat x @ B" "n \<notin> fst ` set A" by auto
    with False have "flat (Element i t cs) = ((i, None) # A) @ flat x @ B \<and> n \<notin> fst ` set ((i, None) # A)"
      by simp
    then show ?thesis by blast
  qed
next
  case (3 n)
  then show ?case by simp
next
  case (4 n c cs)
  show ?case
  proof (cases "findNode n c")
    case None
    with 4 obtain A B where ab: "flats cs = A @ flat x @ B" "n \<notin> fst ` set A" by auto
    from None have "n \<notin> set (nodeIds c)" by (simp add: findNode_None_iff)
    then have "n \<notin> fst ` set (flat c)" by (metis map_fst_flat(1) set_map)
    with ab have "flats (c # cs) = (flat c @ A) @ flat x @ B \<and> n \<notin> fst ` set (flat c @ A)"
      by auto
    then show ?thesis by blast
  next
    case (Some y)
    with 4 obtain A B where "flat c = A @ flat x @ B" "n \<notin> fst ` set A" by auto
    then have "flats (c # cs) = A @ flat x @ (B @ flats cs) \<and> n \<notin> fst ` set A"
      by simp
    then show ?thesis by blast
  qed
qed

lemma ids_flat: "fst ` set (flat t) = set (nodeIds t)" "fst ` set (flats ts) = set (nodesIds ts)"
  by (metis map_fst_flat(1) set_map) (metis map_fst_flat(2) set_map)

lemma put_nodeId [simp]: "nodeId (put p r x t) = nodeId t"
  by (cases t) auto

lemma cut_nodeId [simp]: "nodeId (cut n t) = nodeId t"
  by (cases t) auto




lemma subtrees_ids: "map nodeId (subtrees t) = nodeIds t" "map nodeId (subtreess ts) = nodesIds ts"
  by (induction t and ts rule: subtrees_subtreess.induct) auto

lemma subtrees_self [simp]: "t \<in> set (subtrees t)"
  by (cases t) auto

lemma subtreess_mem: "c \<in> set cs \<Longrightarrow> set (subtrees c) \<subseteq> set (subtreess cs)"
  by (induction cs) auto

lemma in_subtrees_id:
  "x \<in> set (subtrees t) \<Longrightarrow> nodeId x \<in> set (nodeIds t)"
  "x \<in> set (subtreess ts) \<Longrightarrow> nodeId x \<in> set (nodesIds ts)"
  by (metis image_eqI list.set_map subtrees_ids(1)) (metis image_eqI list.set_map subtrees_ids(2))

lemma subtrees_ids_subset:
  "x \<in> set (subtrees t) \<Longrightarrow> set (nodeIds x) \<subseteq> set (nodeIds t)"
  "x \<in> set (subtreess ts) \<Longrightarrow> set (nodeIds x) \<subseteq> set (nodesIds ts)"
  by (induction t and ts rule: subtrees_subtreess.induct) auto

lemma subtrees_trans:
  "x \<in> set (subtrees y) \<Longrightarrow> y \<in> set (subtrees t) \<Longrightarrow> x \<in> set (subtrees t)"
  "x \<in> set (subtrees y) \<Longrightarrow> y \<in> set (subtreess ts) \<Longrightarrow> x \<in> set (subtreess ts)"
  by (induction t and ts rule: subtrees_subtreess.induct) auto

lemma findNode_subtree:
  "findNode n t = Some x \<Longrightarrow> x \<in> set (subtrees t)"
  "findNodes n ts = Some x \<Longrightarrow> x \<in> set (subtreess ts)"
  by (induction n t and n ts rule: findNode_findNodes.induct) (auto split: if_splits option.splits)

lemma subtree_findNode:
  "distinct (nodeIds t) \<Longrightarrow> x \<in> set (subtrees t) \<Longrightarrow> findNode (nodeId x) t = Some x"
  "distinct (nodesIds ts) \<Longrightarrow> x \<in> set (subtreess ts) \<Longrightarrow> findNodes (nodeId x) ts = Some x"
proof (induction t and ts rule: subtrees_subtreess.induct)
  case (1 i d)
  then show ?case by auto
next
  case (2 i t cs)
  show ?case
  proof (cases "x = Element i t cs")
    case True
    then show ?thesis by simp
  next
    case False
    with 2 have x: "x \<in> set (subtreess cs)" by simp
    then have "nodeId x \<in> set (nodesIds cs)" by (rule in_subtrees_id)
    with 2 have "nodeId x \<noteq> i" by auto
    with 2 x show ?thesis by simp
  qed
next
  case 3
  then show ?case by simp
next
  case (4 c cs)
  show ?case
  proof (cases "x \<in> set (subtrees c)")
    case True
    with 4 show ?thesis by simp
  next
    case False
    with 4 have x: "x \<in> set (subtreess cs)" by simp
    then have "nodeId x \<in> set (nodesIds cs)" by (rule in_subtrees_id)
    with 4 have "nodeId x \<notin> set (nodeIds c)" by auto
    then have "findNode (nodeId x) c = None" by (simp add: findNode_None_iff)
    with 4 x show ?thesis by simp
  qed
qed


lemma link_findNode:
  assumes "distinct (nodesIds F)" "findNodes R F = Some T" "n \<in> set (nodeIds T)"
  shows "findNodes n F = findNode n T"
proof -
  from assms(3) obtain x where x: "findNode n T = Some x"
    using findNode_None_iff(1) [of n T] by auto
  then have "x \<in> set (subtrees T)" by (rule findNode_subtree)
  moreover from assms(2) have "T \<in> set (subtreess F)" by (rule findNode_subtree)
  ultimately have "x \<in> set (subtreess F)" by (rule subtrees_trans)
  with assms(1) have "findNodes (nodeId x) F = Some x" by (rule subtree_findNode)
  with x findNode_id(1) [OF x] show ?thesis by simp
qed

lemma findParent_sub:
  "findParent n t = Some P \<Longrightarrow>
     P \<in> set (subtrees t) \<and> (\<exists>p tg cs. P = Element p tg cs \<and> n \<in> nodeId ` set cs)"
  "findParents n ts = Some P \<Longrightarrow>
     P \<in> set (subtreess ts) \<and> (\<exists>p tg cs. P = Element p tg cs \<and> n \<in> nodeId ` set cs)"
  by (induction n t and n ts rule: findParent_findParents.induct)
     (auto split: if_splits option.splits)

lemma child_ids: "n \<in> nodeId ` set cs \<Longrightarrow> n \<in> set (nodesIds cs)"
  by (induction cs) auto

lemma findParent_None:
  "n \<notin> set (nodeIds t) \<Longrightarrow> findParent n t = None"
  "n \<notin> set (nodesIds ts) \<Longrightarrow> findParents n ts = None"
proof (induction n t and n ts rule: findParent_findParents.induct)
  case (2 n i t cs)
  then have "n \<notin> nodeId ` set cs" using child_ids by auto
  with 2 show ?case by auto
qed auto

lemma nodeIds_children: "nodeIds d = nodeId d # nodesIds (childNodes d)"
  by (cases d) auto

lemma inner_subset:
  "set (concat (map (\<lambda>d. nodesIds (childNodes d)) ds)) \<subseteq> set (nodesIds ds)"
  by (induction ds) (auto simp: nodeIds_children)

lemma top_not_inner:
  "distinct (nodesIds ds) \<Longrightarrow> d \<in> set ds \<Longrightarrow>
     nodeId d \<notin> set (concat (map (\<lambda>d. nodesIds (childNodes d)) ds))"
proof (induction ds)
  case Nil
  then show ?case by simp
next
  case (Cons c cs)
  from Cons.prems(1) have dc: "distinct (nodeIds c)" and dcs: "distinct (nodesIds cs)"
    and dj: "set (nodeIds c) \<inter> set (nodesIds cs) = {}" by auto
  show ?case
  proof (cases "d = c")
    case True
    from dc have "nodeId c \<notin> set (nodesIds (childNodes c))" by (simp add: nodeIds_children)
    moreover have "nodeId c \<notin> set (nodesIds cs)" using dj nodeId_in_ids [of c] by blast
    then have "nodeId c \<notin> set (concat (map (\<lambda>d. nodesIds (childNodes d)) cs))"
      using inner_subset [of cs] by blast
    ultimately show ?thesis using True by simp
  next
    case False
    with Cons.prems have d: "d \<in> set cs" by simp
    then have "nodeId d \<in> set (nodesIds cs)" by (simp add: child_ids)
    with dj have "nodeId d \<notin> set (nodeIds c)" by auto
    then have "nodeId d \<notin> set (nodesIds (childNodes c))" by (simp add: nodeIds_children)
    with Cons.IH [OF dcs d] show ?thesis by simp
  qed
qed

lemma subtree_children_inner:
  "Element p tg cs \<in> set (subtreess ds) \<Longrightarrow>
     set (nodesIds cs) \<subseteq> set (concat (map (\<lambda>d. nodesIds (childNodes d)) ds))"
proof (induction ds)
  case Nil
  then show ?case by simp
next
  case (Cons d ds)
  show ?case
  proof (cases "Element p tg cs \<in> set (subtrees d)")
    case True
    show ?thesis
    proof (cases d)
      case (Text i s)
      with True show ?thesis by simp
    next
      case (Element j t kids)
      show ?thesis
      proof (cases "Element p tg cs = d")
        case True
        with Element show ?thesis by auto
      next
        case False
        with True Element have "Element p tg cs \<in> set (subtreess kids)" by auto
        from subtrees_ids_subset(2) [OF this] Element show ?thesis by auto
      qed
    qed
  next
    case False
    with Cons show ?thesis by auto
  qed
qed

lemma subtree_findParent:
  "distinct (nodeIds t) \<Longrightarrow> Element p tg cs \<in> set (subtrees t) \<Longrightarrow> n \<in> nodeId ` set cs \<Longrightarrow>
     findParent n t = Some (Element p tg cs)"
  "distinct (nodesIds ts) \<Longrightarrow> Element p tg cs \<in> set (subtreess ts) \<Longrightarrow> n \<in> nodeId ` set cs \<Longrightarrow>
     findParents n ts = Some (Element p tg cs)"
proof (induction t and ts rule: subtrees_subtreess.induct)
  case (1 i d)
  then show ?case by auto
next
  case (2 i t ds)
  show ?case
  proof (cases "Element p tg cs = Element i t ds")
    case True
    with 2 show ?thesis by auto
  next
    case False
    with "2.prems"(2) have x: "Element p tg cs \<in> set (subtreess ds)" by auto
    from "2.prems"(1) have dd: "distinct (nodesIds ds)" by simp
    have "n \<notin> nodeId ` set ds"
    proof
      assume "n \<in> nodeId ` set ds"
      then obtain d where d: "d \<in> set ds" "nodeId d = n" by auto
      from "2.prems"(3) have "n \<in> set (nodesIds cs)" by (rule child_ids)
      with subtree_children_inner [OF x]
      have "n \<in> set (concat (map (\<lambda>d. nodesIds (childNodes d)) ds))" by auto
      with top_not_inner [OF dd d(1)] d(2) show False by simp
    qed
    with 2 x dd show ?thesis by simp
  qed
next
  case 3
  then show ?case by simp
next
  case (4 c ds)
  show ?case
  proof (cases "Element p tg cs \<in> set (subtrees c)")
    case True
    with 4 show ?thesis by simp
  next
    case False
    with 4 have x: "Element p tg cs \<in> set (subtreess ds)" by simp
    from "4.prems"(3) have "n \<in> set (nodesIds cs)" by (rule child_ids)
    with subtrees_ids_subset(2) [OF x] have "n \<in> set (nodesIds ds)" by auto
    with "4.prems"(1) have "n \<notin> set (nodeIds c)" by auto
    then have "findParent n c = None" by (rule findParent_None)
    with 4 x show ?thesis by simp
  qed
qed

lemma findParent_exists:
  "n \<in> set (nodeIds t) \<Longrightarrow> n \<noteq> nodeId t \<Longrightarrow> findParent n t \<noteq> None"
  "n \<in> set (nodesIds ts) \<Longrightarrow> n \<notin> nodeId ` set ts \<Longrightarrow> findParents n ts \<noteq> None"
proof (induction n t and n ts rule: findParent_findParents.induct)
  case (1 n i d)
  then show ?case by simp
next
  case (2 n i t cs)
  then show ?case by auto
next
  case (3 n)
  then show ?case by simp
next
  case (4 n c cs)
  show ?case
  proof (cases "n \<in> set (nodeIds c)")
    case True
    with 4 show ?thesis by (auto split: option.splits)
  next
    case False
    with 4 show ?thesis by (auto split: option.splits)
  qed
qed

lemma link_findParent:
  assumes d: "distinct (nodesIds F)" and r: "findNodes R F = Some T"
    and n: "n \<in> set (nodeIds T)" and ne: "n \<noteq> R"
  shows "findParents n F = findParent n T \<and> findParent n T \<noteq> None"
proof -
  from findNode_id(2) [OF r] have "nodeId T = R" .
  with n ne findParent_exists(1) [of n T] obtain P where p: "findParent n T = Some P" by auto
  from findParent_sub(1) [OF p] obtain q tg cs where
    s: "P \<in> set (subtrees T)" and e: "P = Element q tg cs" and c: "n \<in> nodeId ` set cs" by blast
  from r have "T \<in> set (subtreess F)" by (rule findNode_subtree)
  with s have "P \<in> set (subtreess F)" by (rule subtrees_trans)
  with d e c have "findParents n F = Some P" using subtree_findParent(2) by blast
  with p show ?thesis by simp
qed








lemma nodesIds_append [simp]: "nodesIds (xs @ ys) = nodesIds xs @ nodesIds ys"
  by (induction xs) auto

lemma flats_append [simp]: "flats (xs @ ys) = flats xs @ flats ys"
  by (induction xs) auto











section \<open>The DOM operations on a well-formed heap\<close>


lemma flat_elem_entry:
  "(n, None) \<in> set (flat t) \<Longrightarrow> \<exists>tg cs. Element n tg cs \<in> set (subtrees t)"
  "(n, None) \<in> set (flats ts) \<Longrightarrow> \<exists>tg cs. Element n tg cs \<in> set (subtreess ts)"
  by (induction t and ts rule: flat_flats.induct) auto

lemma put_Element: "\<exists>cs'. put p r x (Element R tg cs) = Element R tg cs'"
  by simp

lemma cut_Element: "\<exists>cs'. cut n (Element R tg cs) = Element R tg cs'"
  by simp






lemma member_subtreess: "X \<in> set cs \<Longrightarrow> X \<in> set (subtreess cs)"
  using subtreess_mem [of X cs] subtrees_self [of X] by blast














lemma split_unique:
  assumes "n \<notin> fst ` set A"
  shows "takeWhile (\<lambda>e. fst e \<noteq> n) (A @ (n, v) # B) = A"
    and "dropWhile (\<lambda>e. fst e \<noteq> n) (A @ (n, v) # B) = (n, v) # B"
  using assms by (induction A) auto


lemma world_flat_distinct: "world st R T ys \<Longrightarrow> distinct (map fst (flat T))"
  by (simp add: world_def map_fst_flat)

lemma world_upd [simp]:
  "world (st\<lparr>reverts := x\<rparr>) R T ys = world st R T ys"
  "world (st\<lparr>lastIndex := y\<rparr>) R T ys = world st R T ys"
  by (simp_all add: world_def wfState_def nodeOf_def)

lemma nodeOf_upd [simp]:
  "nodeOf (st\<lparr>reverts := x\<rparr>) = nodeOf st"
  "nodeOf (st\<lparr>lastIndex := y\<rparr>) = nodeOf st"
  by (simp_all add: nodeOf_def fun_eq_iff)










section \<open>The replacement function on a well-formed heap\<close>

text \<open>
  The two branches of \<open>replace\<close>: the pieces that take the place of the Text nodes of the
  match in the document order, and the text they hold.
\<close>

lemma textIds_simps [simp]:
  "textIds [] = []" "textIds ((i, Some d) # xs) = i # textIds xs" "textIds ((i, None) # xs) = textIds xs"
  "textIds (xs @ ys) = textIds xs @ textIds ys"
  by (simp_all add: textIds_def)






lemma kids_txt: "txtOf (flats (if fill = [] then [] else [Text k fill])) = fill"
  by simp





lemma txtOf_wrapper [simp]: "txtOf (flat (wrapper tg e d)) = d"
  by (simp add: wrapper_def)












section \<open>The walk\<close>

text \<open>
  Where \<open>firstChild\<close>, \<open>nextSibling\<close> and the loop "move forward or up" lead in the
  document order; that match location gives descriptors that lie in the text in order;
  and that the loop of \<open>_stepThroughMatches\<close> keeps its invariant.
\<close>

lemma segment_unique:
  assumes d: "distinct (map fst xs)" and a: "xs = P @ (c, v) # Q" and b: "xs = P' @ (c, v') # Q'"
  shows "P = P' \<and> v = v' \<and> Q = Q'"
proof -
  from d a have "c \<notin> fst ` set P" by auto
  from split_unique [OF this, of v Q] a
  have 1: "takeWhile (\<lambda>e. fst e \<noteq> c) xs = P" "dropWhile (\<lambda>e. fst e \<noteq> c) xs = (c, v) # Q" by simp_all
  from d b have "c \<notin> fst ` set P'" by auto
  from split_unique [OF this, of v' Q'] b
  have 2: "takeWhile (\<lambda>e. fst e \<noteq> c) xs = P'" "dropWhile (\<lambda>e. fst e \<noteq> c) xs = (c, v') # Q'" by simp_all
  from 1 2 show ?thesis by simp
qed

lemma flat_head: "\<exists>v rest. flat X = (nodeId X, v) # rest"
  by (cases X) auto

lemma world_root:
  assumes w: "world st R T ys"
  shows "\<exists>tg cs. T = Element R tg cs \<and> flat T = (R, None) # flats cs" "R \<in> set (nodeIds T)"
    "distinct (nodeIds T)" "distinct (nodesIds (forest st))" "findNodes R (forest st) = Some T"
  using w by (auto simp: world_def wfState_def nodeOf_def)

lemma world_node:
  assumes w: "world st R T ys" and f: "flat T = P @ (c, v) # Q"
  shows "\<exists>X Q2. nodeOf st c = Some X \<and> findNode c T = Some X \<and> nodeId X = c \<and>
           flat T = P @ flat X @ Q2 \<and> (c, v) # Q = flat X @ Q2 \<and> hd (flat X) = (c, v)"
    and "c \<in> set (nodeIds T)" and "c = R \<longleftrightarrow> P = []"
proof -
  note d = world_flat_distinct [OF w]
  from f have "c \<in> fst ` set (flat T)" by force
  then show cT: "c \<in> set (nodeIds T)" by (simp add: ids_flat)
  then obtain X where x: "findNode c T = Some X" using findNode_None_iff(1) [of c T] by auto
  from findNode_id(1) [OF x] have ix: "nodeId X = c" .
  from findNode_segment(1) [OF x] obtain A B where s: "flat T = A @ flat X @ B" by blast
  from flat_head [of X] ix obtain v' rest where h: "flat X = (c, v') # rest" by auto
  from s h have "flat T = A @ (c, v') # (rest @ B)" by simp
  from segment_unique [OF d f this] have e: "P = A" "v = v'" "Q = rest @ B" by simp_all
  from link_findNode [OF world_root(4) [OF w] world_root(5) [OF w] cT] x
  have "nodeOf st c = Some X" by (simp add: nodeOf_def)
  with x ix s h e show "\<exists>X Q2. nodeOf st c = Some X \<and> findNode c T = Some X \<and> nodeId X = c \<and>
           flat T = P @ flat X @ Q2 \<and> (c, v) # Q = flat X @ Q2 \<and> hd (flat X) = (c, v)" by auto
  from world_root(1) [OF w] obtain tg cs where r: "flat T = [] @ (R, None) # flats cs" by auto
  show "c = R \<longleftrightarrow> P = []"
  proof
    assume "c = R"
    with segment_unique [OF d f] r show "P = []" by blast
  next
    assume "P = []"
    with f r show "c = R" by simp
  qed
qed

lemma nextOf_split:
  "c \<notin> nodeId ` set cs1 \<Longrightarrow> nodeId X = c \<Longrightarrow>
     nextOf c (cs1 @ X # cs2) = (case cs2 of [] \<Rightarrow> None | y # r \<Rightarrow> Some (nodeId y))"
proof (induction cs1)
  case Nil
  then show ?case by (cases cs2) auto
next
  case (Cons a cs1)
  then show ?case by (cases cs1) auto
qed

lemma child_split:
  "c \<in> nodeId ` set cs \<Longrightarrow> \<exists>cs1 X cs2. cs = cs1 @ X # cs2 \<and> nodeId X = c \<and> c \<notin> nodeId ` set cs1"
proof (induction cs)
  case Nil
  then show ?case by simp
next
  case (Cons a cs)
  show ?case
  proof (cases "nodeId a = c")
    case True
    then have "a # cs = [] @ a # cs \<and> nodeId a = c \<and> c \<notin> nodeId ` set []" by simp
    then show ?thesis by blast
  next
    case False
    with Cons obtain cs1 X cs2 where "cs = cs1 @ X # cs2" "nodeId X = c" "c \<notin> nodeId ` set cs1" by auto
    with False have "a # cs = (a # cs1) @ X # cs2 \<and> nodeId X = c \<and> c \<notin> nodeId ` set (a # cs1)" by auto
    then show ?thesis by blast
  qed
qed

lemma nav_sibling:
  assumes w: "world st R T ys" and x: "findNode c T = Some X" and ne: "c \<noteq> R"
    and f: "flat T = P @ flat X @ Q2"
  shows "nextSibling st c = Some s \<Longrightarrow> \<exists>v Q'. Q2 = (s, v) # Q'"
    and "nextSibling st c = None \<Longrightarrow>
           \<exists>p Pn P'. parentNode st c = Some p \<and> findNode p T = Some Pn \<and> flat T = P' @ flat Pn @ Q2 \<and>
              length P' < length P"
proof -
  note d = world_flat_distinct [OF w]
  note dT = world_root(3) [OF w]
  from findNode_id(1) [OF x] have ix: "nodeId X = c" .
  from x have cT: "c \<in> set (nodeIds T)" using findNode_None_iff(1) [of c T] by auto
  from link_findParent [OF world_root(4) [OF w] world_root(5) [OF w] cT ne]
  obtain Pn where fp: "findParents c (forest st) = Some Pn" "findParent c T = Some Pn" by auto
  from findParent_sub(1) [OF fp(2)] obtain p tg cs where
    ps: "Pn \<in> set (subtrees T)" and pe: "Pn = Element p tg cs" and cc: "c \<in> nodeId ` set cs" by blast
  from subtree_findNode(1) [OF dT ps] have fpn: "findNode p T = Some Pn" by (simp add: pe)
  from findNode_segment(1) [OF fpn] obtain A B where s: "flat T = A @ flat Pn @ B" by blast
  from child_split [OF cc] obtain cs1 X' cs2 where
    cs: "cs = cs1 @ X' # cs2" and ix': "nodeId X' = c" and n1: "c \<notin> nodeId ` set cs1" by blast
  have "X' \<in> set (subtreess cs)" by (rule member_subtreess) (simp add: cs)
  then have "X' \<in> set (subtrees Pn)" by (simp add: pe)
  from this ps have "X' \<in> set (subtrees T)" by (rule subtrees_trans)
  from subtree_findNode(1) [OF dT this] x ix' have XX: "X' = X" by simp
  from flat_head [of X] ix obtain v rest where h: "flat X = (c, v) # rest" by auto
  from s pe cs XX have "flat T = (A @ (p, None) # flats cs1) @ flat X @ (flats cs2 @ B)" by simp
  then have 1: "flat T = (A @ (p, None) # flats cs1) @ (c, v) # (rest @ flats cs2 @ B)" by (simp add: h)
  from f have 2: "flat T = P @ (c, v) # (rest @ Q2)" by (simp add: h)
  from segment_unique [OF d 2 1] have q: "Q2 = flats cs2 @ B" and pl: "length A < length P" by simp_all
  have ns: "nextSibling st c = (case cs2 of [] \<Rightarrow> None | y # r \<Rightarrow> Some (nodeId y))"
    using nextOf_split [OF n1 ix', of cs2] by (simp add: nextSibling_def fp(1) pe cs)
  have pn: "parentNode st c = Some p" by (simp add: parentNode_def fp(1) pe)
  {
    assume "nextSibling st c = Some s"
    with ns obtain y r where c2: "cs2 = y # r" and sy: "s = nodeId y" by (auto split: list.splits)
    from flat_head [of y] obtain v' rest' where "flat y = (nodeId y, v') # rest'" by blast
    with q c2 sy have "Q2 = (s, v') # (rest' @ flats r @ B)" by simp
    then show "\<exists>v Q'. Q2 = (s, v) # Q'" by blast
  }
  {
    assume "nextSibling st c = None"
    with ns have "cs2 = []" by (auto split: list.splits)
    with q s have "flat T = A @ flat Pn @ Q2" by simp
    with pn fpn pl show "\<exists>p Pn P'. parentNode st c = Some p \<and> findNode p T = Some Pn \<and>
        flat T = P' @ flat Pn @ Q2 \<and> length P' < length P"
      by blast
  }
qed


text \<open>The loop "move forward or up" from a node other than the root: it ends at the node
  that follows the subtree of the node in the document order, and at \<open>null\<close> when the
  subtree is the last of the root. As many rounds as nodes precede the node are enough.\<close>

lemma moveForwardOrUp_next:
  assumes w: "world st R T ys"
  shows "findNode c T = Some X \<Longrightarrow> c \<noteq> R \<Longrightarrow> flat T = P @ flat X @ Q2 \<Longrightarrow> length P \<le> fuel \<Longrightarrow>
     moveForwardOrUp fuel R c st = Some (Inr (case Q2 of [] \<Rightarrow> None | q # Q' \<Rightarrow> Some (fst q)))"
proof (induction fuel arbitrary: c X P)
  case 0
  from findNode_id(1) [OF 0(1)] flat_head [of X] obtain v rest where "flat X = (c, v) # rest" by auto
  with 0(3) have "flat T = P @ (c, v) # (rest @ Q2)" by simp
  from world_node(3) [OF w this] 0(2) 0(4) show ?case by simp
next
  case (Suc fuel)
  note nav = nav_sibling [OF w Suc.prems(1) Suc.prems(2) Suc.prems(3)]
  show ?case
  proof (cases "nextSibling st c")
    case (Some s)
    from nav(1) [OF Some] obtain v Q' where "Q2 = (s, v) # Q'" by blast
    with Some show ?thesis by simp
  next
    case None
    from nav(2) [OF None] obtain p Pn P' where
      p: "parentNode st c = Some p" "findNode p T = Some Pn" "flat T = P' @ flat Pn @ Q2"
      and l: "length P' < length P" by blast
    show ?thesis
    proof (cases "p = R")
      case True
      from world_root(1) [OF w] obtain tg cs where T: "T = Element R tg cs" by blast
      with p(2) True have "Pn = T" by simp
      with p(3) have "flat T = P' @ flat T @ Q2" by simp
      then have "length (flat T) = length (P' @ flat T @ Q2)" by (rule arg_cong)
      then have "Q2 = []" by simp
      with None p(1) True show ?thesis by simp
    next
      case False
      from l Suc.prems(4) have "length P' \<le> fuel" by simp
      from Suc.IH [OF p(2) False p(3) this] None p(1) False show ?thesis by simp
    qed
  qed
qed























section \<open>The span mapping\<close>

text \<open>
  Claim C3 (span mapping). At a Text node of length \<open>length d\<close>, with the match \<open>ml\<close> being
  located: the node becomes the end node exactly when no end node is set and
  \<open>atIndex + length \<ge> ml.end\<close>, with the offset \<open>ml.end - atIndex\<close>; otherwise it joins the
  inner nodes if a start node is set; it becomes the start node exactly when no start
  node is set and \<open>atIndex + length > ml.start\<close>, with the offset \<open>ml.start - atIndex\<close>; and
  \<open>atIndex\<close> grows by the length. Once the replacement function has returned \<open>el\<close>,
  \<open>atIndex\<close> drops by the end node's length less its offset, and the walk goes forward or
  up from \<open>el\<close>: with \<open>el\<close> in the tree of the root, it resumes at the node that follows
  the subtree of \<open>el\<close> in the document order, and it ends when no node follows.
\<close>

theorem span_mapping_step:
  "(nodeOf st (curNode w) = Some (Text i d) \<and> matchLocation w = Some ml \<longrightarrow>
      (\<exists>w'. visit st w = Inr w' \<and>
         (endNode w = None \<and> mend ml \<le> atIndex w + int (length d) \<longrightarrow>
            endNode w' = Some (curNode w) \<and> endNodeIndex w' = mend ml - atIndex w \<and>
            innerNodes w' = innerNodes w) \<and>
         (\<not> (endNode w = None \<and> mend ml \<le> atIndex w + int (length d)) \<longrightarrow>
            endNode w' = endNode w \<and> endNodeIndex w' = endNodeIndex w \<and>
            innerNodes w' = (if startNode w \<noteq> None then innerNodes w @ [curNode w] else innerNodes w)) \<and>
         (startNode w = None \<and> mstart ml < atIndex w + int (length d) \<longrightarrow>
            startNode w' = Some (curNode w) \<and> startNodeIndex w' = mstart ml - atIndex w) \<and>
         (\<not> (startNode w = None \<and> mstart ml < atIndex w + int (length d)) \<longrightarrow>
            startNode w' = startNode w \<and> startNodeIndex w' = startNodeIndex w) \<and>
         atIndex w' = atIndex w + int (length d)))
   \<and> (visit st w = Inr w1 \<and> startNode w1 = Some s \<and> endNode w1 = Some e \<and>
       replace h mk (rangeOf w1 s e) st = (Inr (Some el), st1) \<and> nodeLength st1 e = Some len \<and>
       matches w1 = ml2 # rest \<longrightarrow>
        (\<exists>w2. afterReplace st1 w1 e = Inr w2 \<and>
           atIndex w2 = atIndex w1 - (int len - endNodeIndex w1) \<and>
           matchLocation w2 = Some ml2 \<and>
           stepLoop h (Suc fuel) node mk w st =
             (case moveForwardOrUp (Suc fuel) node el st1 of
                None \<Rightarrow> None
              | Some (Inl er) \<Rightarrow> Some (Inl er, st1)
              | Some (Inr None) \<Rightarrow> Some (Inr (), st1)
              | Some (Inr (Some c)) \<Rightarrow> stepLoop h fuel node mk (w2\<lparr>curNode := c\<rparr>) st1)))
   \<and> (world st1 node T ys \<and> findNode el T = Some X \<and> el \<noteq> node \<and> flat T = P @ flat X @ Q \<and>
       length P \<le> Suc fuel \<longrightarrow>
        moveForwardOrUp (Suc fuel) node el st1
          = Some (Inr (case Q of [] \<Rightarrow> None | q # Q' \<Rightarrow> Some (fst q))))
   \<and> (visit st w = Inr w1 \<and> startNode w1 = Some s \<and> endNode w1 = Some e \<and>
       replace h mk (rangeOf w1 s e) st = (Inr (Some el), st1) \<and> nodeLength st1 e = Some len \<and>
       matches w1 = ml2 # rest \<and>
       world st1 node T ys \<and> findNode el T = Some X \<and> el \<noteq> node \<and> flat T = P @ flat X @ Q \<and>
       length P \<le> Suc fuel \<longrightarrow>
        (\<exists>w2. afterReplace st1 w1 e = Inr w2 \<and>
           stepLoop h (Suc fuel) node mk w st =
             (case Q of [] \<Rightarrow> Some (Inr (), st1)
              | q # Q' \<Rightarrow> stepLoop h fuel node mk (w2\<lparr>curNode := fst q\<rparr>) st1)))"
proof (intro conjI impI)
  assume a: "nodeOf st (curNode w) = Some (Text i d) \<and> matchLocation w = Some ml"
  then have v: "visit st w = Inr (visitText (length d) ml w)" by (simp add: visit_def)
  show "\<exists>w'. visit st w = Inr w' \<and>
         (endNode w = None \<and> mend ml \<le> atIndex w + int (length d) \<longrightarrow>
            endNode w' = Some (curNode w) \<and> endNodeIndex w' = mend ml - atIndex w \<and>
            innerNodes w' = innerNodes w) \<and>
         (\<not> (endNode w = None \<and> mend ml \<le> atIndex w + int (length d)) \<longrightarrow>
            endNode w' = endNode w \<and> endNodeIndex w' = endNodeIndex w \<and>
            innerNodes w' = (if startNode w \<noteq> None then innerNodes w @ [curNode w] else innerNodes w)) \<and>
         (startNode w = None \<and> mstart ml < atIndex w + int (length d) \<longrightarrow>
            startNode w' = Some (curNode w) \<and> startNodeIndex w' = mstart ml - atIndex w) \<and>
         (\<not> (startNode w = None \<and> mstart ml < atIndex w + int (length d)) \<longrightarrow>
            startNode w' = startNode w \<and> startNodeIndex w' = startNodeIndex w) \<and>
         atIndex w' = atIndex w + int (length d)"
    unfolding v
    by (rule exI [of _ "visitText (length d) ml w"]) (auto simp: visitText_def Let_def add.commute)
next
  assume b: "visit st w = Inr w1 \<and> startNode w1 = Some s \<and> endNode w1 = Some e \<and>
       replace h mk (rangeOf w1 s e) st = (Inr (Some el), st1) \<and> nodeLength st1 e = Some len \<and>
       matches w1 = ml2 # rest"
  let ?w2 = "w1\<lparr>atIndex := atIndex w1 - (int len - endNodeIndex w1),
                      startNode := None, endNode := None, innerNodes := [],
                      matchLocation := Some ml2, matches := rest,
                      matchIndex := Suc (matchIndex w1)\<rparr>"
  from b have ar: "afterReplace st1 w1 e = Inr ?w2" by (simp add: afterReplace_def shift_def)
  show "\<exists>w2. afterReplace st1 w1 e = Inr w2 \<and>
           atIndex w2 = atIndex w1 - (int len - endNodeIndex w1) \<and>
           matchLocation w2 = Some ml2 \<and>
           stepLoop h (Suc fuel) node mk w st =
             (case moveForwardOrUp (Suc fuel) node el st1 of
                None \<Rightarrow> None
              | Some (Inl er) \<Rightarrow> Some (Inl er, st1)
              | Some (Inr None) \<Rightarrow> Some (Inr (), st1)
              | Some (Inr (Some c)) \<Rightarrow> stepLoop h fuel node mk (w2\<lparr>curNode := c\<rparr>) st1)"
    by (rule exI [of _ ?w2]) (use b ar in \<open>simp del: moveForwardOrUp.simps\<close>)
next
  assume c: "world st1 node T ys \<and> findNode el T = Some X \<and> el \<noteq> node \<and> flat T = P @ flat X @ Q \<and>
       length P \<le> Suc fuel"
  then have w: "world st1 node T ys" and x: "findNode el T = Some X" and ne: "el \<noteq> node"
    and f: "flat T = P @ flat X @ Q" and l: "length P \<le> Suc fuel" by simp_all
  from moveForwardOrUp_next [OF w x ne f l]
  show "moveForwardOrUp (Suc fuel) node el st1
          = Some (Inr (case Q of [] \<Rightarrow> None | q # Q' \<Rightarrow> Some (fst q)))" .
next
  assume b: "visit st w = Inr w1 \<and> startNode w1 = Some s \<and> endNode w1 = Some e \<and>
       replace h mk (rangeOf w1 s e) st = (Inr (Some el), st1) \<and> nodeLength st1 e = Some len \<and>
       matches w1 = ml2 # rest \<and>
       world st1 node T ys \<and> findNode el T = Some X \<and> el \<noteq> node \<and> flat T = P @ flat X @ Q \<and>
       length P \<le> Suc fuel"
  then have w: "world st1 node T ys" and x: "findNode el T = Some X" and ne: "el \<noteq> node"
    and f: "flat T = P @ flat X @ Q" and l: "length P \<le> Suc fuel" by simp_all
  note m = moveForwardOrUp_next [OF w x ne f l]
  let ?w2 = "w1\<lparr>atIndex := atIndex w1 - (int len - endNodeIndex w1),
                      startNode := None, endNode := None, innerNodes := [],
                      matchLocation := Some ml2, matches := rest,
                      matchIndex := Suc (matchIndex w1)\<rparr>"
  from b have ar: "afterReplace st1 w1 e = Inr ?w2" by (simp add: afterReplace_def shift_def)
  have "stepLoop h (Suc fuel) node mk w st =
             (case Q of [] \<Rightarrow> Some (Inr (), st1)
              | q # Q' \<Rightarrow> stepLoop h fuel node mk (?w2\<lparr>curNode := fst q\<rparr>) st1)"
    using b ar m by (cases Q) (simp_all del: moveForwardOrUp.simps)
  with ar show "\<exists>w2. afterReplace st1 w1 e = Inr w2 \<and>
           stepLoop h (Suc fuel) node mk w st =
             (case Q of [] \<Rightarrow> Some (Inr (), st1)
              | q # Q' \<Rightarrow> stepLoop h fuel node mk (w2\<lparr>curNode := fst q\<rparr>) st1)"
    by blast
qed

text \<open>The witness: \<open>/is/g\<close> on the paragraph \<open>"This is a test"\<close>, at its Text node. The
  first match \<open>[2, 4]\<close> starts and ends in it; after the replacement \<open>atIndex\<close> is back
  at 4, and the walk resumes at the Text node \<open>" is a test"\<close> that follows the new
  \<open>em\<close>.\<close>

theorem span_mapping_step_witness:
  "(\<exists>w'. visit isDoc isWalk = Inr w' \<and> endNode w' = Some 1 \<and> endNodeIndex w' = 4 \<and>
         startNode w' = Some 1 \<and> startNodeIndex w' = 2 \<and> atIndex w' = 14)
   \<and> replace browser (FromStencil 2) (rangeOf isWalkFound 1 1) isDoc = (Inr (Some 5), isDocReplaced)
   \<and> (\<exists>w2. afterReplace isDocReplaced isWalkFound 1 = Inr w2 \<and> atIndex w2 = 4 \<and>
           matchLocation w2 = Some (5, 7, [''is'']))
   \<and> world isDocReplaced 0
        (Element 0 ''p'' [Text 3 ''Th'', Element 5 ''em'' [Text 6 ''is''], Text 7 '' is a test'']) []
   \<and> moveForwardOrUp 3 0 5 isDocReplaced = Some (Inr (Some 7))
   \<and> (\<exists>w2. afterReplace isDocReplaced isWalkFound 1 = Inr w2 \<and>
         stepLoop browser 3 0 (FromStencil 2) isWalk isDoc
           = stepLoop browser 2 0 (FromStencil 2) (w2\<lparr>curNode := 7\<rparr>) isDocReplaced)"
proof -
  let ?T = "Element 0 ''p'' [Text 3 ''Th'', Element 5 ''em'' [Text 6 ''is''], Text 7 '' is a test'']"
  let ?X = "Element 5 ''em'' [Text 6 ''is'']"
  let ?P = "[(0::nat, None), (3, Some ''Th'')]"
  let ?Q = "[(7::nat, Some '' is a test'')]"
  have n: "nodeOf isDoc (curNode isWalk) = Some (Text 1 ''This is a test'') \<and>
      matchLocation isWalk = Some (2, 4, [''is''])" by code_simp
  have v: "visit isDoc isWalk = Inr isWalkFound" by code_simp
  have r: "replace browser (FromStencil 2) (rangeOf isWalkFound 1 1) isDoc = (Inr (Some 5), isDocReplaced)"
    by code_simp
  have l: "nodeLength isDocReplaced 1 = Some 14" by code_simp
  have f: "startNode isWalkFound = Some 1 \<and> endNode isWalkFound = Some 1 \<and>
      matches isWalkFound = [(5, 7, [''is''])] \<and> atIndex isWalkFound = 14 \<and>
      endNodeIndex isWalkFound = 4" by (simp add: isWalkFound_def)
  have e: "endNode isWalk = None \<and> startNode isWalk = None \<and> atIndex isWalk = 0 \<and>
      curNode isWalk = 1" by (simp add: isWalk_def)
  have w: "world isDocReplaced 0 ?T []"
    by (simp add: world_def wfState_def isDocReplaced_def nodeOf_def)
  have x: "findNode 5 ?T = Some ?X \<and> (5::nat) \<noteq> 0 \<and> flat ?T = ?P @ flat ?X @ ?Q \<and>
      length ?P \<le> Suc 2" by simp
  note t = span_mapping_step [where st = isDoc and w = isWalk and i = 1 and d = "''This is a test''"
      and ml = "(2, 4, [''is''])" and ?w1.0 = isWalkFound and s = 1 and e = 1 and h = browser
      and mk = "FromStencil 2" and el = 5 and ?st1.0 = isDocReplaced and len = 14
      and ?ml2.0 = "(5, 7, [''is''])" and rest = "[]" and fuel = 2 and node = 0
      and T = ?T and ys = "[]" and X = ?X and P = ?P and Q = ?Q]
  note t1 = t [THEN conjunct1]
  note t2 = t [THEN conjunct2, THEN conjunct1]
  note t3 = t [THEN conjunct2, THEN conjunct2, THEN conjunct1]
  note t4 = t [THEN conjunct2, THEN conjunct2, THEN conjunct2]
  from t1 n obtain w' where w': "visit isDoc isWalk = Inr w'"
    "endNode isWalk = None \<and> mend (2, 4, [''is'']) \<le> atIndex isWalk + int (length ''This is a test'') \<longrightarrow>
       endNode w' = Some (curNode isWalk) \<and> endNodeIndex w' = mend (2, 4, [''is'']) - atIndex isWalk \<and>
       innerNodes w' = innerNodes isWalk"
    "startNode isWalk = None \<and> mstart (2, 4, [''is'']) < atIndex isWalk + int (length ''This is a test'') \<longrightarrow>
       startNode w' = Some (curNode isWalk) \<and> startNodeIndex w' = mstart (2, 4, [''is'']) - atIndex isWalk"
    "atIndex w' = atIndex isWalk + int (length ''This is a test'')"
    by blast
  from w' e have p1: "\<exists>w'. visit isDoc isWalk = Inr w' \<and> endNode w' = Some 1 \<and> endNodeIndex w' = 4 \<and>
         startNode w' = Some 1 \<and> startNodeIndex w' = 2 \<and> atIndex w' = 14"
    by (simp add: mend_def mstart_def)
  from t2 v r l f obtain w2 where "afterReplace isDocReplaced isWalkFound 1 = Inr w2"
    "atIndex w2 = atIndex isWalkFound - (int 14 - endNodeIndex isWalkFound)"
    "matchLocation w2 = Some (5, 7, [''is''])" by blast
  with f have p2: "\<exists>w2. afterReplace isDocReplaced isWalkFound 1 = Inr w2 \<and> atIndex w2 = 4 \<and>
           matchLocation w2 = Some (5, 7, [''is''])" by simp
  from t3 w x have p3: "moveForwardOrUp 3 0 5 isDocReplaced = Some (Inr (Some 7))"
    by (simp add: numeral_3_eq_3 del: moveForwardOrUp.simps)
  from t4 v r l f w x obtain w3 where "afterReplace isDocReplaced isWalkFound 1 = Inr w3"
    "stepLoop browser (Suc 2) 0 (FromStencil 2) isWalk isDoc =
       (case ?Q of [] \<Rightarrow> Some (Inr (), isDocReplaced)
        | q # Q' \<Rightarrow> stepLoop browser 2 0 (FromStencil 2) (w3\<lparr>curNode := fst q\<rparr>) isDocReplaced)"
    by blast
  then have p4: "\<exists>w2. afterReplace isDocReplaced isWalkFound 1 = Inr w2 \<and>
         stepLoop browser 3 0 (FromStencil 2) isWalk isDoc
           = stepLoop browser 2 0 (FromStencil 2) (w2\<lparr>curNode := 7\<rparr>) isDocReplaced"
    by (simp add: numeral_3_eq_3 del: stepLoop.simps)
  from p1 r p2 w p3 p4 show ?thesis by blast
qed


section \<open>The flattened text is preserved\<close>








end
